theory Spec2Isabelle
  imports Complex_Main "HOL-Library.List_Lexorder"
begin

section \<open>Activity identity resolution: the model\<close>

text \<open>
  A shallow embedding of \<^verbatim>\<open>orchestrator/app/services/activity_processing_service.py\<close>.
  Python's \<^verbatim>\<open>str\<close> is a sequence of Unicode code points, so a string is a list of
  natural numbers; numpy's floats are idealised as reals, so a similarity that float32
  rounds onto the threshold can compare differently here; everything the service gets
  from outside (the Unicode character database, the sentence encoder, the FAISS search,
  \<^verbatim>\<open>uuid4\<close>, the clock, the success of a disk write) is an explicit argument. The
  \<^verbatim>\<open>print\<close> calls are left out: they change no state, and raise only when the
  standard output cannot encode a printed string (a lone surrogate under strict UTF-8),
  which inside \<^verbatim>\<open>process_activity\<close> ends in the fallback id like any other exception.
\<close>

subsection \<open>Strings\<close>

type_synonym codepoint = nat
type_synonym ustring = "codepoint list"

definition ustr :: "string \<Rightarrow> ustring" where
  "ustr s = map of_char s"

text \<open>
  \<^verbatim>\<open>Py_UNICODE_ISSPACE\<close>: the code points that \<^verbatim>\<open>str.split()\<close>, \<^verbatim>\<open>str.strip()\<close>
  and the class \<^verbatim>\<open>\s\<close> of a \<^verbatim>\<open>str\<close> pattern treat as whitespace.
\<close>

definition py_isspace :: "codepoint \<Rightarrow> bool" where
  "py_isspace c \<longleftrightarrow>
     (9 \<le> c \<and> c \<le> 13) \<or> (28 \<le> c \<and> c \<le> 32) \<or> c = 133 \<or> c = 160 \<or> c = 5760 \<or>
     (8192 \<le> c \<and> c \<le> 8202) \<or> c = 8232 \<or> c = 8233 \<or> c = 8239 \<or> c = 8287 \<or> c = 12288"

text \<open>
  The parts of the Unicode character database that the service reads through
  \<^verbatim>\<open>str.lower\<close>, \<^verbatim>\<open>unicodedata.normalize('NFKD', _)\<close>, \<^verbatim>\<open>unicodedata.combining\<close>
  and the class \<^verbatim>\<open>\w\<close> (alphanumeric or underscore). They belong to the interpreter,
  not to the repository, so they are a parameter of the model.
\<close>

record ucd =
  str_lower :: "ustring \<Rightarrow> ustring"
  nfkd :: "ustring \<Rightarrow> ustring"
  combining :: "codepoint \<Rightarrow> nat"
  isalnum :: "codepoint \<Rightarrow> bool"

definition is_word :: "ucd \<Rightarrow> codepoint \<Rightarrow> bool" where
  "is_word U c \<longleftrightarrow> isalnum U c \<or> c = 95"

text \<open>The class \<^verbatim>\<open>[\w\s\-\.,]\<close>; \<^verbatim>\<open>re.sub\<close> deletes every code point outside it.\<close>

definition kept_char :: "ucd \<Rightarrow> codepoint \<Rightarrow> bool" where
  "kept_char U c \<longleftrightarrow> is_word U c \<or> py_isspace c \<or> c = 45 \<or> c = 46 \<or> c = 44"

text \<open>\<^verbatim>\<open>text.split()\<close>: the maximal runs of non-whitespace, in order.\<close>

fun split_ws :: "ustring \<Rightarrow> ustring \<Rightarrow> ustring list" where
  "split_ws w [] = (if w = [] then [] else [w])"
| "split_ws w (c # cs) =
     (if py_isspace c then (if w = [] then split_ws [] cs else w # split_ws [] cs)
      else split_ws (w @ [c]) cs)"

definition py_split :: "ustring \<Rightarrow> ustring list" where
  "py_split t = split_ws [] t"

fun py_join :: "ustring \<Rightarrow> ustring list \<Rightarrow> ustring" where
  "py_join sep [] = []"
| "py_join sep [w] = w"
| "py_join sep (w # ws) = w @ sep @ py_join sep ws"

definition py_strip :: "ustring \<Rightarrow> ustring" where
  "py_strip t = rev (dropWhile py_isspace (rev (dropWhile py_isspace t)))"

subsection \<open>The normalizer\<close>

definition normalize_text :: "ucd \<Rightarrow> ustring \<Rightarrow> ustring" where
  "normalize_text U text =
     (if text = [] then []
      else
        let t1 = str_lower U text;
            t2 = nfkd U t1;
            t3 = filter (\<lambda>c. combining U c = 0) t2;
            t4 = filter (kept_char U) t3;
            t5 = py_join [32] (py_split t4)
        in py_strip t5)"

definition create_activity_signature :: "ucd \<Rightarrow> ustring \<Rightarrow> ustring \<Rightarrow> ustring \<Rightarrow> ustring" where
  "create_activity_signature U nm loc cat =
     (let normalized_name = normalize_text U nm;
          normalized_location = normalize_text U loc;
          normalized_category = normalize_text U cat;
          signature = normalized_name @ ustr '' | '' @ normalized_location
      in if normalized_category \<noteq> [] then signature @ ustr '' | '' @ normalized_category
         else signature)"

text \<open>
  The rows of the character database for ASCII and for the four code points U+00C9,
  U+00E9 (e acute, decomposing to \<open>e\<close> and U+0301), U+0301 (combining acute accent,
  class 230) and U+2122 (trade mark sign: no lower case, compatibility decomposition
  \<open>TM\<close>). Other code points are given no mapping here; the examples use only these.
\<close>

definition ascii_lower :: "codepoint \<Rightarrow> codepoint" where
  "ascii_lower c = (if 65 \<le> c \<and> c \<le> 90 then c + 32 else c)"

definition ascii_alnum :: "codepoint \<Rightarrow> bool" where
  "ascii_alnum c \<longleftrightarrow> (48 \<le> c \<and> c \<le> 57) \<or> (65 \<le> c \<and> c \<le> 90) \<or> (97 \<le> c \<and> c \<le> 122)"

definition ucd_fragment :: ucd where
  "ucd_fragment =
     \<lparr> str_lower = map (\<lambda>c. if c = 201 then 233 else ascii_lower c),
       nfkd = (\<lambda>t. concat (map (\<lambda>c. if c = 233 then [101, 769]
                                      else if c = 8482 then [84, 77] else [c]) t)),
       combining = (\<lambda>c. if c = 769 then 230 else 0),
       isalnum = (\<lambda>c. ascii_alnum c \<or> c = 201 \<or> c = 233) \<rparr>"

definition is_ascii :: "ustring \<Rightarrow> bool" where
  "is_ascii t \<longleftrightarrow> list_all (\<lambda>c. c < 128) t"

text \<open>
  What every Unicode version guarantees on ASCII text: lower-casing maps \<open>A-Z\<close> to
  \<open>a-z\<close> and nothing else, NFKD leaves it alone, no ASCII code point is a combining
  mark, and the alphanumerics are the digits and the letters.
\<close>

definition ascii_conformant :: "ucd \<Rightarrow> bool" where
  "ascii_conformant U \<longleftrightarrow>
     (\<forall>t. is_ascii t \<longrightarrow> str_lower U t = map ascii_lower t) \<and>
     (\<forall>t. is_ascii t \<longrightarrow> nfkd U t = t) \<and>
     (\<forall>c<128. combining U c = 0) \<and>
     (\<forall>c<128. isalnum U c = ascii_alnum c)"


subsection \<open>Values, dictionaries and errors\<close>

text \<open>
  A decoded JSON value. A Python \<^verbatim>\<open>dict\<close> keeps its keys in insertion order and the
  service iterates over one, so it is an association list with distinct keys:
  \<open>dict_set\<close> is \<^verbatim>\<open>d[k] = v\<close> (an existing key keeps its place, a new one goes to
  the end) and \<open>dict_get\<close> is \<^verbatim>\<open>d.get(k, default)\<close>.
\<close>

datatype json =
    JNull
  | JBool bool
  | JInt int
  | JReal real
  | JStr ustring
  | JArr "json list"
  | JObj "(ustring \<times> json) list"

type_synonym dict = "(ustring \<times> json) list"

primrec dict_set :: "'k \<Rightarrow> 'v \<Rightarrow> ('k \<times> 'v) list \<Rightarrow> ('k \<times> 'v) list" where
  "dict_set k v [] = [(k, v)]"
| "dict_set k v (p # ps) = (if fst p = k then (k, v) # ps else p # dict_set k v ps)"

definition dict_get :: "('k \<times> 'v) list \<Rightarrow> 'k \<Rightarrow> 'v \<Rightarrow> 'v" where
  "dict_get d k dflt = (case map_of d k of None \<Rightarrow> dflt | Some v \<Rightarrow> v)"

definition keys :: "('k \<times> 'v) list \<Rightarrow> 'k list" where
  "keys d = map fst d"

datatype error =
    AttributeError
  | KeyError
  | IndexError
  | AssertionError
  | TypeError
  | OverflowError
  | OSError
  | EncoderError

text \<open>\<^verbatim>\<open>xs[i]\<close> on a list: a negative index counts from the end.\<close>

definition py_index :: "'a list \<Rightarrow> int \<Rightarrow> error + 'a" where
  "py_index xs i =
     (if 0 \<le> i \<and> i < int (length xs) then Inr (xs ! nat i)
      else if i < 0 \<and> - int (length xs) \<le> i then Inr (xs ! nat (int (length xs) + i))
      else Inl IndexError)"

subsection \<open>Records, the index and the service state\<close>

type_synonym vec = "real list"

text \<open>
  \<^verbatim>\<open>ActivityRecord\<close>. The dataclass declares five fields. \<^verbatim>\<open>cleanup_old_activities\<close>
  reads a sixth attribute, \<^verbatim>\<open>last_used\<close>, which no code of the service sets: it is
  \<open>None\<close> on every record the constructor builds, and reading it then raises
  \<^verbatim>\<open>AttributeError\<close>. A time is a number of microseconds since 0001-01-01.
\<close>

record activity_record =
  activity_id :: ustring
  name :: ustring
  location :: ustring
  category :: ustring
  embedding :: vec
  last_used :: "int option"

definition ActivityRecord :: "ustring \<Rightarrow> ustring \<Rightarrow> ustring \<Rightarrow> ustring \<Rightarrow> vec \<Rightarrow> activity_record" where
  "ActivityRecord i n l c e =
     \<lparr> activity_id = i, name = n, location = l, category = c, embedding = e, last_used = None \<rparr>"

text \<open>
  A flat FAISS index: its metric and the stored vectors in slot order. \<^verbatim>\<open>add\<close>
  asserts the dimension.
\<close>

datatype metric = L2 | IP

record faiss_index =
  metric :: metric
  vectors :: "vec list"

definition embedding_dim :: nat where
  "embedding_dim = 384"

definition IndexFlatL2 :: faiss_index where
  "IndexFlatL2 = \<lparr> metric = L2, vectors = [] \<rparr>"

definition IndexFlatIP :: faiss_index where
  "IndexFlatIP = \<lparr> metric = IP, vectors = [] \<rparr>"

definition ntotal :: "faiss_index \<Rightarrow> nat" where
  "ntotal idx = length (vectors idx)"

definition index_add :: "faiss_index \<Rightarrow> vec \<Rightarrow> error + faiss_index" where
  "index_add idx v =
     (if length v = embedding_dim then Inr (idx\<lparr> vectors := vectors idx @ [v] \<rparr>)
      else Inl AssertionError)"

text \<open>
  The service object and the two artifacts on disk: \<open>index_file\<close> is the file at
  \<^verbatim>\<open>db_path\<close>, \<open>records_file\<close> the pickled record map beside it (\<open>None\<close>: the file
  does not exist).
\<close>

record state =
  index :: faiss_index
  index_to_id :: "ustring list"
  activities :: "(ustring \<times> activity_record) list"
  index_file :: "faiss_index option"
  records_file :: "(ustring \<times> activity_record) list option"

text \<open>
  What does not change between calls: the character database, the sentence encoder
  (which may raise), the nearest-neighbour search of FAISS, which returns the pairs
  (distance, slot) of \<^verbatim>\<open>index.search(q, 5)\<close> in its own order, with slot \<open>-1\<close> for a
  missing neighbour, and the threshold given to the constructor.
\<close>

record env =
  unicode :: ucd
  encode :: "ustring \<Rightarrow> error + vec"
  faiss_search :: "faiss_index \<Rightarrow> vec \<Rightarrow> (real \<times> int) list"
  similarity_threshold :: real

text \<open>
  What one call draws from outside: the integers of the two \<^verbatim>\<open>uuid4()\<close> calls it can
  make and whether each disk write succeeds. A failed write is taken to leave the file
  as it was; a write that fails after \<^verbatim>\<open>open(path, 'wb')\<close> has truncated the file leaves
  a file that cannot be loaded, which the model does not represent.
\<close>

record io =
  uuid_new :: nat
  uuid_fallback :: nat
  write_index_ok :: bool
  save_ok :: bool

definition write_index :: "io \<Rightarrow> state \<Rightarrow> (error + unit) \<times> state" where
  "write_index c s =
     (if write_index_ok c then (Inr (), s\<lparr> index_file := Some (index s) \<rparr>)
      else (Inl OSError, s))"

definition save_activities :: "io \<Rightarrow> state \<Rightarrow> (error + unit) \<times> state" where
  "save_activities c s =
     (if save_ok c then (Inr (), s\<lparr> records_file := Some (activities s) \<rparr>)
      else (Inl OSError, s))"

subsection \<open>Identifiers\<close>

text \<open>\<^verbatim>\<open>uuid4().hex\<close>: the 128-bit integer as 32 lower-case hexadecimal digits.\<close>

definition hex_digit :: "nat \<Rightarrow> codepoint" where
  "hex_digit n = (if n < 10 then 48 + n else 87 + n)"

definition uuid_hex :: "nat \<Rightarrow> ustring" where
  "uuid_hex u = map (\<lambda>i. hex_digit ((u div 16 ^ (31 - i)) mod 16)) [0..<32]"

text \<open>\<^verbatim>\<open>f"activity_{uuid.uuid4().hex[:16]}"\<close>, for the integer of the UUID drawn.\<close>

definition uuid_id :: "nat \<Rightarrow> ustring" where
  "uuid_id u = ustr ''activity_'' @ take 16 (uuid_hex u)"

definition generate_activity_id :: "nat \<Rightarrow> ustring \<Rightarrow> ustring \<Rightarrow> ustring \<Rightarrow> ustring" where
  "generate_activity_id u nm loc cat = uuid_id u"

definition fallback_id :: "io \<Rightarrow> ustring" where
  "fallback_id c = uuid_id (uuid_fallback c)"

definition is_lower_hex :: "codepoint \<Rightarrow> bool" where
  "is_lower_hex c \<longleftrightarrow> (48 \<le> c \<and> c \<le> 57) \<or> (97 \<le> c \<and> c \<le> 102)"

definition is_activity_id :: "ustring \<Rightarrow> bool" where
  "is_activity_id s \<longleftrightarrow>
     take 9 s = ustr ''activity_'' \<and> length s = 25 \<and> list_all is_lower_hex (drop 9 s)"

subsection \<open>Rebuilding, searching and storing\<close>

fun rebuild_loop ::
  "(ustring \<times> activity_record) list \<Rightarrow> faiss_index \<Rightarrow> ustring list \<Rightarrow>
   error option \<times> faiss_index \<times> ustring list" where
  "rebuild_loop [] idx ids = (None, idx, ids)"
| "rebuild_loop ((record_id, r) # rest) idx ids =
     (case index_add idx (embedding r) of
        Inl e \<Rightarrow> (Some e, idx, ids)
      | Inr idx' \<Rightarrow> rebuild_loop rest idx' (ids @ [record_id]))"

definition rebuild_index :: "io \<Rightarrow> state \<Rightarrow> (error + unit) \<times> state" where
  "rebuild_index c s =
     (case rebuild_loop (activities s) IndexFlatL2 [] of
        (Some e, idx, ids) \<Rightarrow> (Inl e, s\<lparr> index := idx, index_to_id := ids \<rparr>)
      | (None, idx, ids) \<Rightarrow> write_index c (s\<lparr> index := idx, index_to_id := ids \<rparr>))"

text \<open>
  The loop of \<^verbatim>\<open>_search_similar_activities\<close> over the search results: a result is kept
  when its slot is not \<open>-1\<close> and its similarity \<open>1 - distance / 2\<close> reaches the
  threshold; a slot outside \<open>index_to_id\<close> raises.
\<close>

fun collect_similar :: "real \<Rightarrow> ustring list \<Rightarrow> (real \<times> int) list \<Rightarrow> error + (ustring \<times> real) list" where
  "collect_similar thr ids [] = Inr []"
| "collect_similar thr ids ((distance, slot) # rest) =
     (let similarity = 1 - distance / 2
      in if slot \<noteq> -1 \<and> similarity \<ge> thr then
           (case py_index ids slot of
              Inl e \<Rightarrow> Inl e
            | Inr aid \<Rightarrow>
                (case collect_similar thr ids rest of
                   Inl e \<Rightarrow> Inl e
                 | Inr found \<Rightarrow> Inr ((aid, similarity) # found)))
         else collect_similar thr ids rest)"

definition search_similar_activities ::
  "env \<Rightarrow> state \<Rightarrow> vec \<Rightarrow> error + (ustring \<times> real) list option" where
  "search_similar_activities E s q =
     (if ntotal (index s) > 0 then
        (if length q \<noteq> embedding_dim then Inl AssertionError
         else
           (case collect_similar (similarity_threshold E) (index_to_id s)
                   (faiss_search E (index s) q) of
              Inl e \<Rightarrow> Inl e
            | Inr found \<Rightarrow> Inr (Some found)))
      else Inr None)"

definition store_activity :: "io \<Rightarrow> state \<Rightarrow> activity_record \<Rightarrow> (error + unit) \<times> state" where
  "store_activity c s r =
     (case index_add (index s) (embedding r) of
        Inl e \<Rightarrow> (Inl e, s)
      | Inr idx' \<Rightarrow>
          (let s1 = s\<lparr> index := idx',
                       activities := dict_set (activity_id r) r (activities s),
                       index_to_id := index_to_id s @ [activity_id r] \<rparr>
           in case write_index c s1 of
                (Inl e, s2) \<Rightarrow> (Inl e, s2)
              | (Inr u, s2) \<Rightarrow> save_activities c s2))"

subsection \<open>Loading\<close>

text \<open>
  \<^verbatim>\<open>__init__\<close> loads the record map, then \<^verbatim>\<open>_init_index\<close> reads the index file and
  the records file again, sorts the records by id and rebuilds the index when the two
  sizes differ; any exception leaves an empty service. The files are taken to hold
  well-formed values.
\<close>

definition load_activities :: "state \<Rightarrow> (ustring \<times> activity_record) list" where
  "load_activities s = (case records_file s of Some records \<Rightarrow> records | None \<Rightarrow> [])"

definition init_index :: "io \<Rightarrow> state \<Rightarrow> state" where
  "init_index c s0 =
     (let s = s0\<lparr> index_to_id := [] \<rparr>
      in case index_file s of
           Some idx \<Rightarrow>
             (let s1 = s\<lparr> index := idx \<rparr>
              in case records_file s1 of
                   Some records \<Rightarrow>
                     (let sorted_records = sort_key fst records;
                          s2 = s1\<lparr> activities := sorted_records,
                                    index_to_id := map fst sorted_records \<rparr>
                      in if ntotal (index s2) \<noteq> length (index_to_id s2) then
                           (case rebuild_index c s2 of
                              (Inl e, s3) \<Rightarrow>
                                s3\<lparr> index := IndexFlatL2, activities := [], index_to_id := [] \<rparr>
                            | (Inr u, s3) \<Rightarrow> s3)
                         else s2)
                 | None \<Rightarrow> s1)
         | None \<Rightarrow> s\<lparr> index := IndexFlatL2, activities := [], index_to_id := [] \<rparr>)"

definition new_service ::
  "io \<Rightarrow> faiss_index option \<Rightarrow> (ustring \<times> activity_record) list option \<Rightarrow> state" where
  "new_service c idx_file recs_file =
     (let s = \<lparr> index = IndexFlatL2, index_to_id = [], activities = [],
                 index_file = idx_file, records_file = recs_file \<rparr>
      in init_index c (s\<lparr> activities := load_activities s \<rparr>))"

subsection \<open>Resolving one activity\<close>

text \<open>\<^verbatim>\<open>activity_data.get(k, '').lower()\<close>: a value that is not a string has no \<^verbatim>\<open>lower\<close>.\<close>

definition lower_field :: "ucd \<Rightarrow> dict \<Rightarrow> ustring \<Rightarrow> error + ustring" where
  "lower_field U d k =
     (case dict_get d k (JStr []) of
        JStr v \<Rightarrow> Inr (str_lower U v)
      | _ \<Rightarrow> Inl AttributeError)"

text \<open>
  Lines 279 to 282 of \<^verbatim>\<open>process_activity\<close>: the three lower-cased fields and the
  signature, which is the string given to the encoder.
\<close>

definition activity_signature ::
  "ucd \<Rightarrow> dict \<Rightarrow> error + (ustring \<times> ustring \<times> ustring \<times> ustring)" where
  "activity_signature U d =
     (case lower_field U d (ustr ''name'') of
        Inl e \<Rightarrow> Inl e
      | Inr nm \<Rightarrow>
          (case lower_field U d (ustr ''location'') of
             Inl e \<Rightarrow> Inl e
           | Inr loc \<Rightarrow>
               (case lower_field U d (ustr ''category'') of
                  Inl e \<Rightarrow> Inl e
                | Inr cat \<Rightarrow>
                    Inr (nm, loc, cat, nm @ ustr '' | '' @ loc @ ustr '' | '' @ cat))))"

text \<open>\<^verbatim>\<open>if similar_activities: ... similar_activities[0]\<close>\<close>

definition first_candidate :: "(ustring \<times> real) list option \<Rightarrow> (ustring \<times> real) option" where
  "first_candidate found =
     (case found of
        None \<Rightarrow> None
      | Some [] \<Rightarrow> None
      | Some (x # xs) \<Rightarrow> Some x)"

datatype path = Matched | Created

text \<open>The dictionary returned on the match path: eight keys, read from the input.\<close>

definition matched_result :: "dict \<Rightarrow> ustring \<Rightarrow> dict" where
  "matched_result d similar_id =
     [ (ustr ''name'', dict_get d (ustr ''name'') JNull),
       (ustr ''description'', dict_get d (ustr ''description'') (JStr [])),
       (ustr ''location'', dict_get d (ustr ''location'') JNull),
       (ustr ''startTime'', dict_get d (ustr ''startTime'') JNull),
       (ustr ''endTime'', dict_get d (ustr ''endTime'') JNull),
       (ustr ''participants'', dict_get d (ustr ''participants'') JNull),
       (ustr ''category'', dict_get d (ustr ''category'') JNull),
       (ustr ''activityId'', JStr similar_id) ]"

definition match_path ::
  "io \<Rightarrow> state \<Rightarrow> dict \<Rightarrow> ustring \<Rightarrow> ustring \<Rightarrow> ustring \<Rightarrow> ustring \<Rightarrow> vec \<Rightarrow>
   (error + path \<times> dict) \<times> state" where
  "match_path c s d similar_id nm loc cat emb =
     (let updated_record = ActivityRecord similar_id nm loc cat emb;
          s1 = s\<lparr> activities := dict_set similar_id updated_record (activities s) \<rparr>
      in case rebuild_index c s1 of
           (Inl e, s2) \<Rightarrow> (Inl e, s2)
         | (Inr u, s2) \<Rightarrow> (Inr (Matched, matched_result d similar_id), s2))"

definition create_path ::
  "io \<Rightarrow> state \<Rightarrow> dict \<Rightarrow> ustring \<Rightarrow> ustring \<Rightarrow> ustring \<Rightarrow> vec \<Rightarrow>
   (error + path \<times> dict) \<times> state" where
  "create_path c s d nm loc cat emb =
     (let aid = generate_activity_id (uuid_new c) nm loc cat;
          activity_record = ActivityRecord aid nm loc cat emb
      in case store_activity c s activity_record of
           (Inl e, s1) \<Rightarrow> (Inl e, s1)
         | (Inr u, s1) \<Rightarrow> (Inr (Created, dict_set (ustr ''activityId'') (JStr aid) d), s1))"

text \<open>
  The body of the \<^verbatim>\<open>try\<close> block of \<^verbatim>\<open>process_activity\<close>: the result, or the exception
  raised, and the state the service is left in.
\<close>

definition resolve :: "env \<Rightarrow> io \<Rightarrow> state \<Rightarrow> dict \<Rightarrow> (error + path \<times> dict) \<times> state" where
  "resolve E c s d =
     (case activity_signature (unicode E) d of
        Inl e \<Rightarrow> (Inl e, s)
      | Inr (nm, loc, cat, signature) \<Rightarrow>
          (case encode E signature of
             Inl e \<Rightarrow> (Inl e, s)
           | Inr emb \<Rightarrow>
               (case search_similar_activities E s emb of
                  Inl e \<Rightarrow> (Inl e, s)
                | Inr found \<Rightarrow>
                    (case first_candidate found of
                       None \<Rightarrow> create_path c s d nm loc cat emb
                     | Some (similar_id, similarity) \<Rightarrow>
                         (case map_of (activities s) similar_id of
                            None \<Rightarrow> (Inl KeyError, s)
                          | Some similar_activity \<Rightarrow>
                              if similarity \<ge> similarity_threshold E
                              then match_path c s d similar_id nm loc cat emb
                              else create_path c s d nm loc cat emb)))))"

text \<open>
  \<^verbatim>\<open>process_activity\<close>: the handler of \<^verbatim>\<open>except Exception\<close> turns every exception of
  the body into the input annotated with a fallback id. On a dictionary the handler
  itself cannot raise, so the function has no error result.
\<close>

definition process_activity :: "env \<Rightarrow> io \<Rightarrow> state \<Rightarrow> dict \<Rightarrow> dict \<times> state" where
  "process_activity E c s d =
     (case resolve E c s d of
        (Inr (p, r), s1) \<Rightarrow> (r, s1)
      | (Inl e, s1) \<Rightarrow> (dict_set (ustr ''activityId'') (JStr (fallback_id c)) d, s1))"

subsection \<open>Processing a trip plan\<close>





subsection \<open>Cleanup\<close>

text \<open>
  \<^verbatim>\<open>datetime.now() - timedelta(days=days_old)\<close>: a \<^verbatim>\<open>timedelta\<close> holds at most
  999999999 days and a \<^verbatim>\<open>datetime\<close> lies between the years 1 and 9999; both raise
  \<^verbatim>\<open>OverflowError\<close> otherwise.
\<close>

definition datetime_end :: int where
  "datetime_end = 3652059 * 86400000000"

definition cutoff_date :: "int \<Rightarrow> int \<Rightarrow> error + int" where
  "cutoff_date now days_old =
     (if \<bar>days_old\<bar> > 999999999 then Inl OverflowError
      else
        let t = now - days_old * 86400000000
        in if t < 0 \<or> t \<ge> datetime_end then Inl OverflowError else Inr t)"

fun cleanup_loop ::
  "int \<Rightarrow> (ustring \<times> activity_record) list \<Rightarrow> (ustring \<times> activity_record) list \<Rightarrow>
   faiss_index \<Rightarrow> error + (ustring \<times> activity_record) list \<times> faiss_index" where
  "cleanup_loop cutoff [] new_activities new_index = Inr (new_activities, new_index)"
| "cleanup_loop cutoff ((aid, activity) # rest) new_activities new_index =
     (case last_used activity of
        None \<Rightarrow> Inl AttributeError
      | Some t \<Rightarrow>
          if t \<ge> cutoff then
            (case index_add new_index (embedding activity) of
               Inl e \<Rightarrow> Inl e
             | Inr new_index' \<Rightarrow>
                 cleanup_loop cutoff rest (dict_set aid activity new_activities) new_index')
          else cleanup_loop cutoff rest new_activities new_index)"

text \<open>
  \<^verbatim>\<open>cleanup_old_activities\<close> has no handler: every exception reaches the caller. The
  count is computed after \<^verbatim>\<open>self.activities\<close> has been replaced.
\<close>

definition cleanup_old_activities ::
  "int \<Rightarrow> io \<Rightarrow> state \<Rightarrow> int \<Rightarrow> (error + int) \<times> state" where
  "cleanup_old_activities now c s days_old =
     (case cutoff_date now days_old of
        Inl e \<Rightarrow> (Inl e, s)
      | Inr cutoff \<Rightarrow>
          (case cleanup_loop cutoff (activities s) [] IndexFlatIP of
             Inl e \<Rightarrow> (Inl e, s)
           | Inr (new_activities, new_index) \<Rightarrow>
               (let s1 = s\<lparr> index := new_index, activities := new_activities \<rparr>
                in case write_index c s1 of
                     (Inl e, s2) \<Rightarrow> (Inl e, s2)
                   | (Inr u, s2) \<Rightarrow>
                       (case save_activities c s2 of
                          (Inl e, s3) \<Rightarrow> (Inl e, s3)
                        | (Inr u, s3) \<Rightarrow>
                            (let deleted_count =
                                   int (length (activities s3)) - int (length new_activities)
                             in (Inr deleted_count, s3))))))"

definition get_activity_stats_total :: "state \<Rightarrow> nat" where
  "get_activity_stats_total s = length (activities s)"

section \<open>Predicates and example data used by the properties\<close>

text \<open>A list of words as \<^verbatim>\<open>split()\<close> returns them: none empty, none with whitespace.\<close>

definition words :: "ustring list \<Rightarrow> bool" where
  "words ws \<longleftrightarrow> (\<forall>x\<in>set ws. x \<noteq> [] \<and> (\<forall>c\<in>set x. \<not> py_isspace c))"

text \<open>The size invariant of the spec: index, \<open>index_to_id\<close> and record map agree.\<close>

definition sizes_agree :: "state \<Rightarrow> bool" where
  "sizes_agree s \<longleftrightarrow>
     ntotal (index s) = length (index_to_id s) \<and> length (index_to_id s) = length (activities s)"

definition ids_wellformed :: "state \<Rightarrow> bool" where
  "ids_wellformed s \<longleftrightarrow>
     list_all is_activity_id (index_to_id s) \<and> list_all is_activity_id (keys (activities s))"

text \<open>The service as \<^verbatim>\<open>__init__\<close> leaves it when no file exists yet.\<close>

definition empty_service :: state where
  "empty_service =
     \<lparr> index = IndexFlatL2, index_to_id = [], activities = [],
       index_file = None, records_file = None \<rparr>"

subsection \<open>An environment for the examples\<close>

text \<open>
  Exhaustive search as a flat FAISS index does it: the score of every stored vector
  (squared Euclidean distance, ascending, equal distances in slot order, for \<open>L2\<close>;
  inner product, descending, equal products in reverse slot order, for \<open>IP\<close>), the
  best five, padded with slot \<open>-1\<close>.
\<close>

definition l2sq :: "vec \<Rightarrow> vec \<Rightarrow> real" where
  "l2sq a b = sum_list (map (\<lambda>xy. (fst xy - snd xy)\<^sup>2) (zip a b))"

definition inner_product :: "vec \<Rightarrow> vec \<Rightarrow> real" where
  "inner_product a b = sum_list (map (\<lambda>xy. fst xy * snd xy) (zip a b))"

definition no_neighbour :: "real \<Rightarrow> (real \<times> int) list" where
  "no_neighbour x = [(x, -1), (x, -1), (x, -1), (x, -1), (x, -1)]"

definition flat_search :: "faiss_index \<Rightarrow> vec \<Rightarrow> (real \<times> int) list" where
  "flat_search idx q =
     (case metric idx of
        L2 \<Rightarrow>
          take 5 (sort_key fst (map (\<lambda>iv. (l2sq q (snd iv), int (fst iv)))
                                    (enumerate 0 (vectors idx)))
                  @ no_neighbour 340282346638528859811704183484516925440)
      | IP \<Rightarrow>
          take 5 (sort_key (\<lambda>p. - fst p)
                    (rev (map (\<lambda>iv. (inner_product q (snd iv), int (fst iv)))
                              (enumerate 0 (vectors idx))))
                  @ no_neighbour (- 340282346638528859811704183484516925440)))"

text \<open>An encoder given by a finite table; it raises on any other text.\<close>

definition table_encode :: "(ustring \<times> vec) list \<Rightarrow> ustring \<Rightarrow> error + vec" where
  "table_encode tbl t = (case map_of tbl t of Some v \<Rightarrow> Inr v | None \<Rightarrow> Inl EncoderError)"

definition example_env :: "(ustring \<times> vec) list \<Rightarrow> env" where
  "example_env tbl =
     \<lparr> unicode = ucd_fragment, encode = table_encode tbl, faiss_search = flat_search,
       similarity_threshold = 85 / 100 \<rparr>"

definition axis_vec :: "real \<Rightarrow> real \<Rightarrow> vec" where
  "axis_vec x y = x # y # replicate 382 0"

definition io_ok :: "nat \<Rightarrow> nat \<Rightarrow> io" where
  "io_ok u v = \<lparr> uuid_new = u, uuid_fallback = v, write_index_ok = True, save_ok = True \<rparr>"

definition activity :: "string \<Rightarrow> string \<Rightarrow> string \<Rightarrow> dict" where
  "activity nm loc cat =
     [ (ustr ''name'', JStr (ustr nm)), (ustr ''location'', JStr (ustr loc)),
       (ustr ''category'', JStr (ustr cat)) ]"

definition day :: int where
  "day = 86400000000"

definition example_now :: int where
  "example_now = 739000 * day"

text \<open>
  \<open>uuid_n k\<close> is a UUID whose first sixteen hexadecimal digits spell \<open>k\<close>, so that
  different \<open>k\<close> below \<open>16 ^ 16\<close> give different ids.
\<close>

definition uuid_n :: "nat \<Rightarrow> nat" where
  "uuid_n k = k * 16 ^ 16"

text \<open>
  One activity, the encoder that knows its signature, and the service after that
  activity has been resolved once on an empty service with \<^verbatim>\<open>uuid4()\<close> drawing
  \<open>uuid_n 1\<close>.
\<close>

definition skytree :: dict where
  "skytree = activity ''Tokyo Skytree'' ''TYO'' ''tour''"

definition skytree_env :: env where
  "skytree_env = example_env [(ustr ''tokyo skytree | tyo | tour'', axis_vec 1 0)]"

definition skytree_record :: activity_record where
  "skytree_record =
     ActivityRecord (uuid_id (uuid_n 1)) (ustr ''tokyo skytree'') (ustr ''tyo'') (ustr ''tour'') (axis_vec 1 0)"

definition one_record_service :: state where
  "one_record_service =
     \<lparr> index = \<lparr> metric = L2, vectors = [axis_vec 1 0] \<rparr>,
       index_to_id = [uuid_id (uuid_n 1)],
       activities = [(uuid_id (uuid_n 1), skytree_record)],
       index_file = Some \<lparr> metric = L2, vectors = [axis_vec 1 0] \<rparr>,
       records_file = Some [(uuid_id (uuid_n 1), skytree_record)] \<rparr>"

definition io_save_fails :: "nat \<Rightarrow> nat \<Rightarrow> io" where
  "io_save_fails u v = \<lparr> uuid_new = u, uuid_fallback = v, write_index_ok = True, save_ok = False \<rparr>"

text \<open>
  Three activities whose signatures the encoder places so that the third is at squared
  distance 0.16 from each of the first two, which are at 0.32 from each other; the
  UUIDs drawn for the first two start with the digits \<open>b\<close> and \<open>a\<close>.
\<close>

definition tie_env :: env where
  "tie_env =
     example_env
       [ (ustr ''tokyo tower | tyo | tour'', axis_vec (4 / 10) 0),
         (ustr ''tokyo skytree | tyo | tour'', axis_vec 0 (4 / 10)),
         (ustr ''tokyo sky tower | tyo | tour'', axis_vec 0 0) ]"

definition uuid_b :: nat where
  "uuid_b = 11 * 16 ^ 31"

definition uuid_a :: nat where
  "uuid_a = 10 * 16 ^ 31"

definition two_record_service :: state where
  "two_record_service =
     \<lparr> index = \<lparr> metric = L2, vectors = [axis_vec (4 / 10) 0, axis_vec 0 (4 / 10)] \<rparr>,
       index_to_id = [uuid_id uuid_b, uuid_id uuid_a],
       activities =
         [ (uuid_id uuid_b, ActivityRecord (uuid_id uuid_b) (ustr ''tokyo tower'') (ustr ''tyo'')
                              (ustr ''tour'') (axis_vec (4 / 10) 0)),
           (uuid_id uuid_a, ActivityRecord (uuid_id uuid_a) (ustr ''tokyo skytree'') (ustr ''tyo'')
                              (ustr ''tour'') (axis_vec 0 (4 / 10))) ],
       index_file = Some \<lparr> metric = L2, vectors = [axis_vec (4 / 10) 0, axis_vec 0 (4 / 10)] \<rparr>,
       records_file = Some
         [ (uuid_id uuid_b, ActivityRecord (uuid_id uuid_b) (ustr ''tokyo tower'') (ustr ''tyo'')
                              (ustr ''tour'') (axis_vec (4 / 10) 0)),
           (uuid_id uuid_a, ActivityRecord (uuid_id uuid_a) (ustr ''tokyo skytree'') (ustr ''tyo'')
                              (ustr ''tour'') (axis_vec 0 (4 / 10))) ] \<rparr>"

text \<open>
  A service whose three records carry the attribute \<^verbatim>\<open>last_used\<close>, set 40, 10 and 1
  days before \<open>example_now\<close>.
\<close>

definition aged :: "nat \<Rightarrow> int \<Rightarrow> vec \<Rightarrow> activity_record" where
  "aged k days v =
     (ActivityRecord (uuid_id (uuid_n k)) (ustr ''tokyo skytree'') (ustr ''tyo'') (ustr ''tour'') v)
       \<lparr> last_used := Some (example_now - days * day) \<rparr>"

definition three_record_service :: state where
  "three_record_service =
     \<lparr> index = \<lparr> metric = L2, vectors = [axis_vec 1 0, axis_vec 0 1, axis_vec (- 1) 0] \<rparr>,
       index_to_id = [uuid_id (uuid_n 1), uuid_id (uuid_n 2), uuid_id (uuid_n 3)],
       activities =
         [ (uuid_id (uuid_n 1), aged 1 40 (axis_vec 1 0)),
           (uuid_id (uuid_n 2), aged 2 10 (axis_vec 0 1)),
           (uuid_id (uuid_n 3), aged 3 1 (axis_vec (- 1) 0)) ],
       index_file = Some \<lparr> metric = L2, vectors = [axis_vec 1 0, axis_vec 0 1, axis_vec (- 1) 0] \<rparr>,
       records_file = Some
         [ (uuid_id (uuid_n 1), aged 1 40 (axis_vec 1 0)),
           (uuid_id (uuid_n 2), aged 2 10 (axis_vec 0 1)),
           (uuid_id (uuid_n 3), aged 3 1 (axis_vec (- 1) 0)) ] \<rparr>"

definition skytree_with_extra :: dict where
  "skytree_with_extra = skytree @ [(ustr ''bookingRef'', JStr (ustr ''X1''))]"

subsection \<open>Trip plans\<close>












text \<open>
  A records file written with an id of another form, and the index file that goes
  with it.
\<close>

definition legacy_record :: activity_record where
  "legacy_record =
     ActivityRecord (ustr ''legacy'') (ustr ''tokyo skytree'') (ustr ''tyo'') (ustr ''tour'') (axis_vec 1 0)"

definition legacy_service :: state where
  "legacy_service =
     new_service (io_ok (uuid_n 5) (uuid_n 6))
       (Some \<lparr> metric = L2, vectors = [axis_vec 1 0] \<rparr>)
       (Some [(ustr ''legacy'', legacy_record)])"

text \<open>The service restarted on the two files \<open>two_record_service\<close> has written.\<close>

definition restarted_service :: state where
  "restarted_service =
     new_service (io_ok (uuid_n 5) (uuid_n 6))
       (index_file two_record_service) (records_file two_record_service)"


section \<open>Properties\<close>

subsection \<open>The normalizer\<close>

lemma split_ws_nospace: "\<forall>c\<in>set u. \<not> py_isspace c \<Longrightarrow> split_ws w (u @ rest) = split_ws (w @ u) rest"
  by (induction u arbitrary: w) auto

lemma split_ws_words:
  assumes "\<forall>c\<in>set w. \<not> py_isspace c" and "x \<in> set (split_ws w t)"
  shows "x \<noteq> [] \<and> (\<forall>c\<in>set x. \<not> py_isspace c)"
  using assms
proof (induction t arbitrary: w)
  case Nil
  from Nil(2) have "w \<noteq> [] \<and> x = w" by (simp split: if_splits)
  with Nil(1) show ?case by simp
next
  case (Cons a t)
  show ?case
  proof (cases "py_isspace a")
    case True
    with Cons.prems(2) have "(w \<noteq> [] \<and> x = w) \<or> x \<in> set (split_ws [] t)"
      by (simp split: if_splits)
    then show ?thesis
    proof
      assume "w \<noteq> [] \<and> x = w"
      with Cons.prems(1) show ?thesis by simp
    next
      assume "x \<in> set (split_ws [] t)"
      then show ?thesis by (rule Cons.IH[rotated]) simp
    qed
  next
    case False
    with Cons.prems(2) have x: "x \<in> set (split_ws (w @ [a]) t)" by simp
    have "\<forall>c\<in>set (w @ [a]). \<not> py_isspace c" using Cons.prems(1) False by simp
    then show ?thesis using x by (rule Cons.IH)
  qed
qed

lemma split_ws_chars:
  assumes "x \<in> set (split_ws w t)" and "c \<in> set x"
  shows "c \<in> set w \<union> set t"
  using assms
proof (induction t arbitrary: w)
  case Nil
  from Nil(1) have "x = w" by (simp split: if_splits)
  with Nil(2) show ?case by simp
next
  case (Cons a t)
  show ?case
  proof (cases "py_isspace a")
    case True
    with Cons.prems(1) have "x = w \<or> x \<in> set (split_ws [] t)"
      by (simp split: if_splits)
    then show ?thesis
    proof
      assume "x = w"
      with Cons.prems(2) show ?thesis by simp
    next
      assume "x \<in> set (split_ws [] t)"
      from Cons.IH[OF this Cons.prems(2)] show ?thesis by simp
    qed
  next
    case False
    with Cons.prems(1) have x: "x \<in> set (split_ws (w @ [a]) t)" by simp
    from Cons.IH[OF x Cons.prems(2)] show ?thesis by simp
  qed
qed

lemma words_py_split: "words (py_split t)"
  unfolding words_def py_split_def using split_ws_words[of "[]"] by simp

lemma py_split_chars: "x \<in> set (py_split t) \<Longrightarrow> c \<in> set x \<Longrightarrow> c \<in> set t"
  unfolding py_split_def using split_ws_chars[of x "[]" t c] by simp

lemma py_isspace_32: "py_isspace 32"
  by (simp add: py_isspace_def)

lemma split_join: "words ws \<Longrightarrow> py_split (py_join [32] ws) = ws"
proof (induction "[32::nat]" ws rule: py_join.induct)
  case 1
  show ?case by (simp add: py_split_def)
next
  case (2 w)
  then have "split_ws [] (w @ []) = split_ws ([] @ w) []"
    by (intro split_ws_nospace) (simp add: words_def)
  with 2 show ?case by (simp add: py_split_def words_def)
next
  case (3 w v vs)
  from 3 have w: "w \<noteq> []" "\<forall>c\<in>set w. \<not> py_isspace c" and rest: "words (v # vs)"
    by (simp_all add: words_def)
  have "split_ws [] (w @ 32 # py_join [32] (v # vs)) = split_ws ([] @ w) (32 # py_join [32] (v # vs))"
    using w(2) by (rule split_ws_nospace)
  also have "\<dots> = w # split_ws [] (py_join [32] (v # vs))"
    using w(1) by (simp add: py_isspace_32)
  also have "\<dots> = w # v # vs"
    using 3(1)[OF rest] by (simp add: py_split_def)
  finally show ?case by (simp add: py_split_def)
qed

lemma join_ends:
  "words ws \<Longrightarrow> ws \<noteq> [] \<Longrightarrow>
   py_join [32] ws \<noteq> [] \<and> \<not> py_isspace (hd (py_join [32] ws)) \<and> \<not> py_isspace (last (py_join [32] ws))"
proof (induction "[32::nat]" ws rule: py_join.induct)
  case 1
  then show ?case by simp
next
  case (2 w)
  then show ?case by (cases w) (auto simp: words_def)
next
  case (3 w v vs)
  then show ?case by (cases w) (auto simp: words_def)
qed

lemma strip_join: "words ws \<Longrightarrow> py_strip (py_join [32] ws) = py_join [32] ws"
proof (cases "ws = []")
  case True
  then show ?thesis by (simp add: py_strip_def)
next
  case False
  assume "words ws"
  from join_ends[OF this False]
  have e: "py_join [32] ws \<noteq> []" "\<not> py_isspace (hd (py_join [32] ws))"
    "\<not> py_isspace (last (py_join [32] ws))" by simp_all
  have 1: "dropWhile py_isspace (py_join [32] ws) = py_join [32] ws"
    using e(2) by (simp add: dropWhile_eq_self_iff)
  have 2: "dropWhile py_isspace (rev (py_join [32] ws)) = rev (py_join [32] ws)"
    using e(1,3) by (simp add: dropWhile_eq_self_iff hd_rev)
  show ?thesis by (simp add: py_strip_def 1 2)
qed

lemma join_chars: "c \<in> set (py_join sep ws) \<Longrightarrow> c \<in> set sep \<or> (\<exists>x\<in>set ws. c \<in> set x)"
  by (induction sep ws rule: py_join.induct) auto

lemma ascii_lower_idem: "ascii_lower (ascii_lower c) = ascii_lower c"
  by (simp add: ascii_lower_def)

lemma ascii_lower_lt: "c < 128 \<Longrightarrow> ascii_lower c < 128"
  by (simp add: ascii_lower_def)

lemma normalize_text_ascii:
  assumes U: "ascii_conformant U" and t: "is_ascii t" and ne: "t \<noteq> []"
  shows "normalize_text U t = py_join [32] (py_split (filter (kept_char U) (map ascii_lower t)))"
proof -
  have l: "str_lower U t = map ascii_lower t" using U t by (simp add: ascii_conformant_def)
  have a: "is_ascii (map ascii_lower t)" using t by (simp add: is_ascii_def list_all_iff ascii_lower_lt)
  then have n: "nfkd U (map ascii_lower t) = map ascii_lower t" using U by (simp add: ascii_conformant_def)
  have c: "filter (\<lambda>c. combining U c = 0) (map ascii_lower t) = map ascii_lower t"
    using U a by (simp add: ascii_conformant_def is_ascii_def list_all_iff)
  show ?thesis unfolding normalize_text_def Let_def l n c
    using ne by (simp add: strip_join words_py_split)
qed

text \<open>
  On ASCII text, for any character database that treats ASCII as every Unicode
  version does, normalising twice gives what normalising once gives.
\<close>

theorem normalize_text_idempotent_ascii:
  assumes U: "ascii_conformant U" and t: "is_ascii t"
  shows "normalize_text U (normalize_text U t) = normalize_text U t"
proof (cases "t = []")
  case True
  then show ?thesis by (simp add: normalize_text_def)
next
  case False
  define t4 where "t4 = filter (kept_char U) (map ascii_lower t)"
  define r where "r = py_join [32] (py_split t4)"
  have r: "normalize_text U t = r"
    using normalize_text_ascii[OF U t False] by (simp add: r_def t4_def)
  have chars: "c \<in> set t4 \<or> c = 32" if "c \<in> set r" for c
    using join_chars[of c "[32]" "py_split t4"] that py_split_chars[of _ t4 c] by (auto simp: r_def)
  have t4: "c < 128 \<and> ascii_lower c = c \<and> kept_char U c" if "c \<in> set t4" for c
    using that t by (auto simp: t4_def is_ascii_def list_all_iff ascii_lower_lt ascii_lower_idem)
  have sp: "(32::nat) < 128 \<and> ascii_lower 32 = 32 \<and> kept_char U 32"
    by (simp add: ascii_lower_def kept_char_def py_isspace_32)
  have all: "c < 128 \<and> ascii_lower c = c \<and> kept_char U c" if "c \<in> set r" for c
    using chars[OF that] t4 sp by auto
  have ra: "is_ascii r" using all by (simp add: is_ascii_def list_all_iff)
  have low: "map ascii_lower r = r" using all by (simp add: map_idI)
  have kept: "filter (kept_char U) r = r" using all by simp
  show ?thesis
  proof (cases "r = []")
    case True
    show ?thesis unfolding r True by (simp add: normalize_text_def)
  next
    case False
    have "normalize_text U r = py_join [32] (py_split (filter (kept_char U) (map ascii_lower r)))"
      by (rule normalize_text_ascii[OF U ra False])
    also have "\<dots> = py_join [32] (py_split r)" by (simp add: low kept)
    also have "\<dots> = r" by (simp add: r_def split_join words_py_split)
    finally show ?thesis by (simp add: r)
  qed
qed

lemma fragment_lower: "is_ascii t \<Longrightarrow> str_lower ucd_fragment t = map ascii_lower t"
  by (induction t) (simp_all add: ucd_fragment_def is_ascii_def)

lemma fragment_nfkd: "is_ascii t \<Longrightarrow> nfkd ucd_fragment t = t"
  by (induction t) (simp_all add: ucd_fragment_def is_ascii_def)

lemma ascii_conformant_fragment: "ascii_conformant ucd_fragment"
  unfolding ascii_conformant_def
  by (simp add: fragment_lower fragment_nfkd) (simp add: ucd_fragment_def)


theorem normalize_text_idempotent_ascii_witness:
  "ascii_conformant ucd_fragment \<and> is_ascii (ustr ''  Tokyo   Skytree! '') \<and>
   normalize_text ucd_fragment (normalize_text ucd_fragment (ustr ''  Tokyo   Skytree! ''))
     = normalize_text ucd_fragment (ustr ''  Tokyo   Skytree! '')"
proof -
  have a: "is_ascii (ustr ''  Tokyo   Skytree! '')"
    by (simp add: is_ascii_def ustr_def)
  show ?thesis
    using normalize_text_idempotent_ascii [OF ascii_conformant_fragment a]
      ascii_conformant_fragment a by simp
qed

text \<open>
  More generally, a result of the normalizer that lower-casing and NFKD leave alone is
  left alone by a second pass.
\<close>

lemma normalize_text_fixed:
  assumes r: "r = normalize_text U t"
    and low: "str_lower U r = r" and nf: "nfkd U r = r" and sp: "combining U 32 = 0"
  shows "normalize_text U r = r"
proof (cases "t = []")
  case True
  then show ?thesis by (simp add: r normalize_text_def)
next
  case False
  define t4 where "t4 = filter (kept_char U) (filter (\<lambda>c. combining U c = 0) (nfkd U (str_lower U t)))"
  have r': "r = py_join [32] (py_split t4)"
    unfolding r normalize_text_def Let_def t4_def
    using False by (simp only: if_False strip_join[OF words_py_split])
  have chars: "c \<in> set t4 \<or> c = 32" if "c \<in> set r" for c
    using join_chars[of c "[32]" "py_split t4"] that py_split_chars[of _ t4 c] by (auto simp: r')
  have all: "combining U c = 0 \<and> kept_char U c" if "c \<in> set r" for c
    using chars[OF that] sp by (auto simp: t4_def kept_char_def py_isspace_32)
  have f1: "filter (\<lambda>c. combining U c = 0) r = r" using all by simp
  have f2: "filter (kept_char U) r = r" using all by simp
  have sj: "py_join [32] (py_split r) = r"
    by (simp add: r' split_join words_py_split)
  show ?thesis
  proof (cases "r = []")
    case True
    then show ?thesis by (simp add: normalize_text_def)
  next
    case False
    have "normalize_text U r = py_strip (py_join [32] (py_split r))"
      unfolding normalize_text_def Let_def low nf f1 f2 using False by (simp only: if_False)
    also have "\<dots> = r"
      unfolding sj unfolding r' by (rule strip_join[OF words_py_split])
    finally show ?thesis .
  qed
qed

text \<open>
  C10. The normalizer is not idempotent: the trade mark sign U+2122 has no lower case
  and decomposes under NFKD, which runs after the lower-casing, to \<open>TM\<close>; so one
  pass gives the upper-case \<open>TM\<close> and a second pass gives \<open>tm\<close>.
\<close>

theorem normalize_text_not_idempotent:
  "normalize_text ucd_fragment [8482] = ustr ''TM'' \<and>
   normalize_text ucd_fragment (ustr ''TM'') = ustr ''tm'' \<and>
   normalize_text ucd_fragment (normalize_text ucd_fragment [8482])
     \<noteq> normalize_text ucd_fragment [8482]"
  by (simp add: normalize_text_def ucd_fragment_def kept_char_def is_word_def ascii_alnum_def
      ascii_lower_def py_isspace_def py_split_def py_strip_def ustr_def)

subsection \<open>Dictionaries, identifiers and the index loops\<close>

lemma ustr_eq_iff: "ustr a = ustr b \<longleftrightarrow> a = b"
  unfolding ustr_def by (rule inj_map_eq_map) (simp add: inj_on_def)

lemma map_of_dict_set: "map_of (dict_set k v d) = (map_of d)(k \<mapsto> v)"
  by (induction d) auto

lemma keys_dict_set:
  "keys (dict_set k v d) = (if k \<in> set (keys d) then keys d else keys d @ [k])"
  by (induction d) (auto simp: keys_def)

lemma length_dict_set:
  "length (dict_set k v d) = (if k \<in> set (keys d) then length d else Suc (length d))"
  by (induction d) (auto simp: keys_def)

lemma hex_digit_lower_hex: "n < 16 \<Longrightarrow> is_lower_hex (hex_digit n)"
  by (simp add: hex_digit_def is_lower_hex_def)

lemma length_uuid_hex: "length (uuid_hex u) = 32"
  by (simp add: uuid_hex_def)

lemma uuid_hex_lower_hex: "list_all is_lower_hex (uuid_hex u)"
  by (simp add: uuid_hex_def list_all_iff hex_digit_lower_hex)

lemma length_ustr: "length (ustr s) = length s"
  by (simp add: ustr_def)

lemma uuid_id_wellformed: "is_activity_id (uuid_id u)"
proof -
  have "list_all is_lower_hex (take 16 (uuid_hex u))"
    using uuid_hex_lower_hex[of u] by (auto simp: list_all_iff dest: in_set_takeD)
  then show ?thesis
    by (simp add: is_activity_id_def uuid_id_def length_ustr length_uuid_hex)
qed

lemma py_index_in_set: "py_index xs i = Inr x \<Longrightarrow> x \<in> set xs"
  by (auto simp: py_index_def split: if_splits)

lemma collect_similar_ids:
  "collect_similar thr ids res = Inr found \<Longrightarrow> (i, x) \<in> set found \<Longrightarrow> i \<in> set ids"
proof (induction res arbitrary: found)
  case Nil
  then show ?case by simp
next
  case (Cons p res)
  obtain d slot where p: "p = (d, slot)" by (cases p)
  show ?case using Cons.prems Cons.IH
    by (auto simp: p Let_def split: if_splits sum.splits intro: py_index_in_set)
qed

lemma collect_similar_threshold:
  "collect_similar thr ids res = Inr found \<Longrightarrow> (i, x) \<in> set found \<Longrightarrow> thr \<le> x"
proof (induction res arbitrary: found)
  case Nil
  then show ?case by simp
next
  case (Cons p res)
  obtain d slot where p: "p = (d, slot)" by (cases p)
  show ?case using Cons.prems Cons.IH
    by (auto simp: p Let_def split: if_splits sum.splits)
qed

lemma rebuild_loop_None:
  "rebuild_loop acts idx ids = (None, idx', ids') \<Longrightarrow>
   ids' = ids @ keys acts \<and> vectors idx' = vectors idx @ map (\<lambda>kv. embedding (snd kv)) acts \<and>
   metric idx' = metric idx"
proof (induction acts arbitrary: idx ids)
  case Nil
  then show ?case by (simp add: keys_def)
next
  case (Cons kv acts)
  obtain k r where kv: "kv = (k, r)" by (cases kv)
  from Cons.prems obtain idx1 where a: "index_add idx (embedding r) = Inr idx1"
    and r: "rebuild_loop acts idx1 (ids @ [k]) = (None, idx', ids')"
    by (auto simp: kv split: sum.splits)
  from a have "vectors idx1 = vectors idx @ [embedding r]" "metric idx1 = metric idx"
    by (auto simp: index_add_def split: if_splits)
  with Cons.IH[OF r] show ?case by (simp add: kv keys_def)
qed

lemma rebuild_loop_any:
  "rebuild_loop acts idx ids = (err, idx', ids') \<Longrightarrow>
   set ids' \<subseteq> set ids \<union> set (keys acts) \<and>
   length (vectors idx') + length ids = length (vectors idx) + length ids'"
proof (induction acts arbitrary: idx ids)
  case Nil
  then show ?case by (simp add: keys_def)
next
  case (Cons kv acts)
  obtain k r where kv: "kv = (k, r)" by (cases kv)
  show ?case
  proof (cases "index_add idx (embedding r)")
    case (Inl e)
    with Cons.prems show ?thesis by (simp add: kv)
  next
    case (Inr idx1)
    then have v: "vectors idx1 = vectors idx @ [embedding r]"
      by (auto simp: index_add_def split: if_splits)
    from Cons.prems Inr have "rebuild_loop acts idx1 (ids @ [k]) = (err, idx', ids')"
      by (simp add: kv)
    from Cons.IH[OF this] v show ?thesis by (auto simp: kv keys_def)
  qed
qed

lemma rebuild_loop_total:
  "list_all (\<lambda>kv. length (embedding (snd kv)) = embedding_dim) acts \<Longrightarrow>
   \<exists>idx' ids'. rebuild_loop acts idx ids = (None, idx', ids')"
proof (induction acts arbitrary: idx ids)
  case Nil
  then show ?case by simp
next
  case (Cons kv acts)
  obtain k r where kv: "kv = (k, r)" by (cases kv)
  from Cons.prems have "index_add idx (embedding r) = Inr (idx\<lparr>vectors := vectors idx @ [embedding r]\<rparr>)"
    by (simp add: kv index_add_def)
  with Cons show ?case by (simp add: kv)
qed

subsection \<open>The paths of the resolver\<close>

lemma resolve_cases [consumes 0, case_names sig_fail enc_fail search_fail key_fail matched created]:
  obtains
    e where "activity_signature (unicode E) d = Inl e" and "resolve E c s d = (Inl e, s)"
  | nm loc cat sg e where "activity_signature (unicode E) d = Inr (nm, loc, cat, sg)"
      and "encode E sg = Inl e" and "resolve E c s d = (Inl e, s)"
  | nm loc cat sg emb e where "activity_signature (unicode E) d = Inr (nm, loc, cat, sg)"
      and "encode E sg = Inr emb" and "search_similar_activities E s emb = Inl e"
      and "resolve E c s d = (Inl e, s)"
  | nm loc cat sg emb found sid sim where "activity_signature (unicode E) d = Inr (nm, loc, cat, sg)"
      and "encode E sg = Inr emb" and "search_similar_activities E s emb = Inr found"
      and "first_candidate found = Some (sid, sim)" and "map_of (activities s) sid = None"
      and "resolve E c s d = (Inl KeyError, s)"
  | nm loc cat sg emb found sid sim r where "activity_signature (unicode E) d = Inr (nm, loc, cat, sg)"
      and "encode E sg = Inr emb" and "search_similar_activities E s emb = Inr found"
      and "first_candidate found = Some (sid, sim)" and "map_of (activities s) sid = Some r"
      and "similarity_threshold E \<le> sim"
      and "resolve E c s d = match_path c s d sid nm loc cat emb"
  | nm loc cat sg emb found where "activity_signature (unicode E) d = Inr (nm, loc, cat, sg)"
      and "encode E sg = Inr emb" and "search_similar_activities E s emb = Inr found"
      and "first_candidate found = None \<or>
           (\<exists>sid sim r. first_candidate found = Some (sid, sim) \<and> map_of (activities s) sid = Some r
              \<and> sim < similarity_threshold E)"
      and "resolve E c s d = create_path c s d nm loc cat emb"
proof (cases "activity_signature (unicode E) d")
  case (Inl e)
  then have "resolve E c s d = (Inl e, s)" by (simp add: resolve_def)
  with Inl that(1) show ?thesis by blast
next
  case (Inr q)
  obtain nm loc cat sg where q: "q = (nm, loc, cat, sg)" by (cases q)
  note sg = Inr[unfolded q]
  show ?thesis
  proof (cases "encode E sg")
    case (Inl e)
    then have "resolve E c s d = (Inl e, s)" by (simp add: resolve_def sg)
    with sg Inl that(2) show ?thesis by blast
  next
    case emb: (Inr emb)
    show ?thesis
    proof (cases "search_similar_activities E s emb")
      case (Inl e)
      then have "resolve E c s d = (Inl e, s)" by (simp add: resolve_def sg emb)
      with sg emb Inl that(3) show ?thesis by blast
    next
      case found: (Inr found)
      show ?thesis
      proof (cases "first_candidate found")
        case None
        then have "resolve E c s d = create_path c s d nm loc cat emb"
          by (simp add: resolve_def sg emb found)
        with sg emb found None that(6) show ?thesis by blast
      next
        case (Some p)
        obtain sid sim where p: "p = (sid, sim)" by (cases p)
        note fc = Some[unfolded p]
        show ?thesis
        proof (cases "map_of (activities s) sid")
          case None
          then have "resolve E c s d = (Inl KeyError, s)"
            by (simp add: resolve_def sg emb found fc)
          with sg emb found fc None that(4) show ?thesis by blast
        next
          case r: (Some r)
          show ?thesis
          proof (cases "similarity_threshold E \<le> sim")
            case True
            then have "resolve E c s d = match_path c s d sid nm loc cat emb"
              by (simp add: resolve_def sg emb found fc r)
            with sg emb found fc r True that(5) show ?thesis by blast
          next
            case False
            then have "resolve E c s d = create_path c s d nm loc cat emb"
              by (simp add: resolve_def sg emb found fc r)
            moreover have "\<exists>sid sim r. first_candidate found = Some (sid, sim) \<and>
                map_of (activities s) sid = Some r \<and> sim < similarity_threshold E"
              using fc r False by auto
            ultimately show ?thesis using sg emb found that(6) by blast
          qed
        qed
      qed
    qed
  qed
qed

lemma first_candidate_Some:
  "first_candidate found = Some p \<longleftrightarrow> (\<exists>rest. found = Some (p # rest))"
  by (auto simp: first_candidate_def split: option.splits list.splits)

lemma search_first_candidate:
  assumes "search_similar_activities E s emb = Inr found"
    and "first_candidate found = Some (sid, sim)"
  shows "sid \<in> set (index_to_id s) \<and> similarity_threshold E \<le> sim"
proof -
  from assms(2) obtain rest where f: "found = Some ((sid, sim) # rest)"
    by (auto simp: first_candidate_Some)
  from assms(1) have c: "collect_similar (similarity_threshold E) (index_to_id s)
      (faiss_search E (index s) emb) = Inr ((sid, sim) # rest)"
    by (auto simp: search_similar_activities_def f split: if_splits sum.splits)
  show ?thesis
    using collect_similar_ids[OF c, of sid sim] collect_similar_threshold[OF c, of sid sim]
    by simp
qed

lemma rebuild_index_ok:
  assumes "rebuild_index c s = (Inr u, s')"
  shows "index_to_id s' = keys (activities s) \<and>
         vectors (index s') = map (\<lambda>kv. embedding (snd kv)) (activities s) \<and>
         metric (index s') = L2 \<and> activities s' = activities s \<and>
         index_file s' = Some (index s') \<and> records_file s' = records_file s \<and>
         write_index_ok c"
proof -
  obtain err idx ids where l: "rebuild_loop (activities s) IndexFlatL2 [] = (err, idx, ids)"
    by (cases "rebuild_loop (activities s) IndexFlatL2 []") auto
  from assms l have err: "err = None"
    by (cases err) (simp_all add: rebuild_index_def)
  from assms l err have w: "write_index_ok c"
    and s': "s' = s\<lparr>index := idx, index_to_id := ids, index_file := Some idx\<rparr>"
    by (auto simp: rebuild_index_def write_index_def split: if_splits)
  from rebuild_loop_None[OF l[unfolded err]] show ?thesis
    by (simp add: s' w IndexFlatL2_def)
qed

lemma rebuild_index_any:
  assumes "rebuild_index c s = (res, s')"
  shows "activities s' = activities s \<and> set (index_to_id s') \<subseteq> set (keys (activities s)) \<and>
         ntotal (index s') = length (index_to_id s') \<and> records_file s' = records_file s"
proof -
  obtain err idx ids where l: "rebuild_loop (activities s) IndexFlatL2 [] = (err, idx, ids)"
    by (cases "rebuild_loop (activities s) IndexFlatL2 []") auto
  from assms l have "activities s' = activities s \<and> index_to_id s' = ids \<and> index s' = idx
      \<and> records_file s' = records_file s"
    by (cases err) (auto simp: rebuild_index_def write_index_def split: if_splits)
  with rebuild_loop_any[OF l] show ?thesis
    by (simp add: ntotal_def IndexFlatL2_def)
qed

lemma match_path_ok:
  assumes "match_path c s d sid nm loc cat emb = (Inr (p, r), s')"
  shows "p = Matched \<and> r = matched_result d sid \<and>
         activities s' = dict_set sid (ActivityRecord sid nm loc cat emb) (activities s) \<and>
         index_to_id s' = keys (activities s') \<and>
         vectors (index s') = map (\<lambda>kv. embedding (snd kv)) (activities s') \<and>
         metric (index s') = L2 \<and>
         index_file s' = Some (index s') \<and> records_file s' = records_file s"
proof -
  let ?s1 = "s\<lparr>activities := dict_set sid (ActivityRecord sid nm loc cat emb) (activities s)\<rparr>"
  obtain res s2 where rb: "rebuild_index c ?s1 = (res, s2)" by (cases "rebuild_index c ?s1") auto
  from assms rb obtain u where res: "res = Inr u" and eq: "s2 = s'" "p = Matched" "r = matched_result d sid"
    by (cases res) (auto simp: match_path_def Let_def)
  from rebuild_index_ok[OF rb[unfolded res]] eq show ?thesis by simp
qed

lemma match_path_any:
  assumes "match_path c s d sid nm loc cat emb = (res, s')"
  shows "activities s' = dict_set sid (ActivityRecord sid nm loc cat emb) (activities s) \<and>
         set (index_to_id s') \<subseteq> set (keys (activities s')) \<and>
         ntotal (index s') = length (index_to_id s') \<and> records_file s' = records_file s"
proof -
  let ?s1 = "s\<lparr>activities := dict_set sid (ActivityRecord sid nm loc cat emb) (activities s)\<rparr>"
  obtain res2 s2 where rb: "rebuild_index c ?s1 = (res2, s2)" by (cases "rebuild_index c ?s1") auto
  from assms rb have "s2 = s'"
    by (cases res2) (auto simp: match_path_def Let_def)
  with rebuild_index_any[OF rb] show ?thesis by simp
qed

lemma store_activity_ok:
  assumes "store_activity c s r = (Inr u, s')"
  shows "index s' = (index s)\<lparr>vectors := vectors (index s) @ [embedding r]\<rparr> \<and>
         activities s' = dict_set (activity_id r) r (activities s) \<and>
         index_to_id s' = index_to_id s @ [activity_id r] \<and>
         index_file s' = Some (index s') \<and> records_file s' = Some (activities s') \<and>
         write_index_ok c \<and> save_ok c"
  using assms
  by (auto simp: store_activity_def index_add_def write_index_def save_activities_def Let_def
      split: if_splits)

lemma store_activity_any:
  assumes "store_activity c s r = (res, s')"
  shows "s' = s \<or>
         (vectors (index s') = vectors (index s) @ [embedding r] \<and>
          activities s' = dict_set (activity_id r) r (activities s) \<and>
          index_to_id s' = index_to_id s @ [activity_id r])"
  using assms
  by (auto simp: store_activity_def index_add_def write_index_def save_activities_def Let_def
      split: if_splits)

lemma create_path_ok:
  assumes "create_path c s d nm loc cat emb = (Inr (p, r), s')"
  shows "p = Created \<and> r = dict_set (ustr ''activityId'') (JStr (uuid_id (uuid_new c))) d \<and>
         index s' = (index s)\<lparr>vectors := vectors (index s) @ [emb]\<rparr> \<and>
         activities s' = dict_set (uuid_id (uuid_new c))
            (ActivityRecord (uuid_id (uuid_new c)) nm loc cat emb) (activities s) \<and>
         index_to_id s' = index_to_id s @ [uuid_id (uuid_new c)] \<and>
         index_file s' = Some (index s') \<and> records_file s' = Some (activities s') \<and>
         write_index_ok c \<and> save_ok c"
proof -
  let ?r = "ActivityRecord (uuid_id (uuid_new c)) nm loc cat emb"
  obtain res s2 where st: "store_activity c s ?r = (res, s2)" by (cases "store_activity c s ?r") auto
  from assms st obtain u where res: "res = Inr u" and eq: "s2 = s'" "p = Created"
      "r = dict_set (ustr ''activityId'') (JStr (uuid_id (uuid_new c))) d"
    by (cases res) (auto simp: create_path_def Let_def generate_activity_id_def)
  from store_activity_ok[OF st[unfolded res]] eq show ?thesis
    by (simp add: ActivityRecord_def)
qed

lemma create_path_any:
  assumes "create_path c s d nm loc cat emb = (res, s')"
  shows "s' = s \<or>
         (vectors (index s') = vectors (index s) @ [emb] \<and>
          activities s' = dict_set (uuid_id (uuid_new c))
            (ActivityRecord (uuid_id (uuid_new c)) nm loc cat emb) (activities s) \<and>
          index_to_id s' = index_to_id s @ [uuid_id (uuid_new c)])"
proof -
  let ?r = "ActivityRecord (uuid_id (uuid_new c)) nm loc cat emb"
  obtain res2 s2 where st: "store_activity c s ?r = (res2, s2)" by (cases "store_activity c s ?r") auto
  from assms st have "s2 = s'"
    by (cases res2) (auto simp: create_path_def Let_def generate_activity_id_def)
  with store_activity_any[OF st] show ?thesis by (simp add: ActivityRecord_def)
qed

subsection \<open>The identifier returned\<close>

lemma keys_dict_set_present:
  assumes "map_of d k = Some v"
  shows "keys (dict_set k v' d) = keys d"
proof -
  have "k \<in> set (keys d)" using map_of_SomeD[OF assms] by (force simp: keys_def)
  then show ?thesis by (simp add: keys_dict_set)
qed

lemma resolve_ids_wellformed:
  assumes wf: "ids_wellformed s" and r: "resolve E c s d = (res, s')"
  shows "ids_wellformed s'"
proof (cases rule: resolve_cases[of E d c s])
  case (matched nm loc cat sg emb found sid sim rec)
  from match_path_any[OF r[unfolded matched(7)]]
  have a: "activities s' = dict_set sid (ActivityRecord sid nm loc cat emb) (activities s)"
    and i: "set (index_to_id s') \<subseteq> set (keys (activities s'))" by blast+
  from a matched(5) have k: "keys (activities s') = keys (activities s)"
    by (simp add: keys_dict_set_present)
  from wf i k show ?thesis by (auto simp: ids_wellformed_def list_all_iff)
next
  case (created nm loc cat sg emb found)
  from create_path_any[OF r[unfolded created(5)]] wf show ?thesis
    by (auto simp: ids_wellformed_def list_all_iff keys_dict_set uuid_id_wellformed
        split: if_splits)
qed (use r wf in auto)

lemma process_activity_annotated:
  "\<exists>aid. map_of (fst (process_activity E c s d)) (ustr ''activityId'') = Some (JStr aid)"
proof -
  obtain res s' where r: "resolve E c s d = (res, s')" by (cases "resolve E c s d") auto
  show ?thesis
  proof (cases res)
    case (Inl e)
    then show ?thesis by (simp add: process_activity_def r map_of_dict_set)
  next
    case (Inr q)
    obtain p out where q: "q = (p, out)" by (cases q)
    have "\<exists>aid. map_of out (ustr ''activityId'') = Some (JStr aid)"
    proof (cases rule: resolve_cases[of E d c s])
      case (matched nm loc cat sg emb found sid sim rec)
      from match_path_ok[OF r[unfolded matched(7) Inr q]]
      show ?thesis by (simp add: matched_result_def ustr_eq_iff)
    next
      case (created nm loc cat sg emb found)
      from create_path_ok[OF r[unfolded created(5) Inr q]]
      show ?thesis by (simp add: map_of_dict_set)
    qed (use r Inr in auto)
    then show ?thesis by (simp add: process_activity_def r Inr q)
  qed
qed

lemma process_activity_id_format_aux:
  assumes "ids_wellformed s"
  shows "(\<exists>aid. map_of (fst (process_activity E c s d)) (ustr ''activityId'') = Some (JStr aid)
            \<and> is_activity_id aid)
         \<and> ids_wellformed (snd (process_activity E c s d))"
proof -
  obtain res s' where r: "resolve E c s d = (res, s')" by (cases "resolve E c s d") auto
  have st: "ids_wellformed s'" using resolve_ids_wellformed[OF assms r] .
  show ?thesis
  proof (cases res)
    case (Inl e)
    then have "process_activity E c s d
        = (dict_set (ustr ''activityId'') (JStr (fallback_id c)) d, s')"
      by (simp add: process_activity_def r)
    then show ?thesis
      using st by (simp add: map_of_dict_set fallback_id_def uuid_id_wellformed)
  next
    case (Inr q)
    obtain p out where q: "q = (p, out)" by (cases q)
    have pa: "process_activity E c s d = (out, s')"
      by (simp add: process_activity_def r Inr q)
    have "\<exists>aid. map_of out (ustr ''activityId'') = Some (JStr aid) \<and> is_activity_id aid"
    proof (cases rule: resolve_cases[of E d c s])
      case (matched nm loc cat sg emb found sid sim rec)
      from match_path_ok[OF r[unfolded matched(7) Inr q]]
      have out: "out = matched_result d sid" by simp
      from search_first_candidate[OF matched(3,4)] assms have "is_activity_id sid"
        by (auto simp: ids_wellformed_def list_all_iff)
      then show ?thesis by (simp add: out matched_result_def ustr_eq_iff)
    next
      case (created nm loc cat sg emb found)
      from create_path_ok[OF r[unfolded created(5) Inr q]]
      show ?thesis by (simp add: map_of_dict_set uuid_id_wellformed)
    qed (use r Inr in auto)
    then show ?thesis using st by (simp add: pa)
  qed
qed

text \<open>
  C9 (amended). \<open>process_activity\<close> has no error result: on every dictionary it
  returns a dictionary with an \<open>activityId\<close>. That id is \<open>activity_\<close> followed by
  sixteen lower-case hexadecimal digits whenever every id stored in \<open>index_to_id\<close>
  and in the record map has that form, and every call preserves that; a match returns
  the stored id as it is.
\<close>

theorem process_activity_id_format:
  "(\<exists>aid. map_of (fst (process_activity E c s d)) (ustr ''activityId'') = Some (JStr aid)) \<and>
   (ids_wellformed s \<longrightarrow>
      (\<exists>aid. map_of (fst (process_activity E c s d)) (ustr ''activityId'') = Some (JStr aid)
         \<and> is_activity_id aid)
      \<and> ids_wellformed (snd (process_activity E c s d)))"
  using process_activity_annotated[of E c s d] process_activity_id_format_aux[of s E c d]
  by blast

lemma resolve_sizes_agree:
  assumes inv: "sizes_agree s" and r: "resolve E c s d = (Inr (p, out), s')"
    and fresh: "uuid_id (uuid_new c) \<notin> set (keys (activities s))"
  shows "sizes_agree s'"
proof (cases rule: resolve_cases[of E d c s])
  case (matched nm loc cat sg emb found sid sim rec)
  from match_path_ok[OF r[unfolded matched(7)]] show ?thesis
    by (simp add: sizes_agree_def ntotal_def keys_def)
next
  case (created nm loc cat sg emb found)
  from create_path_ok[OF r[unfolded created(5)]] inv fresh show ?thesis
    by (simp add: sizes_agree_def ntotal_def length_dict_set)
qed (use r in auto)

subsection \<open>Matching and persistence\<close>



text \<open>
  C3 (amended). The create path returns only after both artifacts have been written,
  the match path only after the vector index has been written; an exception in the
  body, a failed write among them, is not reported: \<open>process_activity\<close> returns the
  input annotated with a fallback id.
\<close>

theorem process_activity_persistence:
  "(resolve E c s d = (Inr (Created, out), s') \<longrightarrow>
      write_index_ok c \<and> save_ok c \<and>
      index_file s' = Some (index s') \<and> records_file s' = Some (activities s')) \<and>
   (resolve E c s d = (Inr (Matched, out), s') \<longrightarrow>
      write_index_ok c \<and> index_file s' = Some (index s')) \<and>
   (resolve E c s d = (Inl e, s') \<longrightarrow>
      process_activity E c s d = (dict_set (ustr ''activityId'') (JStr (fallback_id c)) d, s'))"
proof -
  have 1: "write_index_ok c \<and> save_ok c \<and>
      index_file s' = Some (index s') \<and> records_file s' = Some (activities s')"
    if r: "resolve E c s d = (Inr (Created, out), s')"
  proof (cases rule: resolve_cases[of E d c s])
    case (matched nm loc cat sg emb found sid sim rec)
    from match_path_ok[OF r[unfolded matched(7)]] show ?thesis by simp
  next
    case (created nm loc cat sg emb found)
    from create_path_ok[OF r[unfolded created(5)]] show ?thesis by simp
  qed (use r in auto)
  have 2: "write_index_ok c \<and> index_file s' = Some (index s')"
    if r: "resolve E c s d = (Inr (Matched, out), s')"
  proof (cases rule: resolve_cases[of E d c s])
    case (matched nm loc cat sg emb found sid sim rec)
    let ?s1 = "s\<lparr>activities := dict_set sid (ActivityRecord sid nm loc cat emb) (activities s)\<rparr>"
    obtain res s2 where rb: "rebuild_index c ?s1 = (res, s2)"
      by (cases "rebuild_index c ?s1") auto
    from r[unfolded matched(7)] rb obtain u where "res = Inr u" "s2 = s'"
      by (cases res) (auto simp: match_path_def Let_def)
    with rebuild_index_ok[of c ?s1 u s'] rb show ?thesis by simp
  next
    case (created nm loc cat sg emb found)
    from create_path_ok[OF r[unfolded created(5)]] show ?thesis by simp
  qed (use r in auto)
  have 3: "process_activity E c s d
      = (dict_set (ustr ''activityId'') (JStr (fallback_id c)) d, s')"
    if "resolve E c s d = (Inl e, s')"
    using that by (simp add: process_activity_def)
  from 1 2 3 show ?thesis by blast
qed

subsection \<open>Evaluating the examples\<close>

lemmas eval_defs =
  process_activity_def resolve_def activity_signature_def lower_field_def dict_get_def
  search_similar_activities_def first_candidate_def create_path_def match_path_def
  matched_result_def store_activity_def rebuild_index_def write_index_def save_activities_def
  index_add_def ntotal_def embedding_dim_def IndexFlatL2_def ActivityRecord_def
  generate_activity_id_def fallback_id_def py_index_def
  example_env_def table_encode_def flat_search_def no_neighbour_def sum_list_replicate l2sq_def axis_vec_def io_ok_def
  io_save_fails_def activity_def empty_service_def ucd_fragment_def ascii_lower_def ustr_def
  Let_def

lemma uuid_id_b: "uuid_id uuid_b = ustr ''activity_b000000000000000''"
  by (simp add: uuid_id_def uuid_hex_def uuid_b_def hex_digit_def upt_conv_Cons ustr_def)

lemma uuid_id_a: "uuid_id uuid_a = ustr ''activity_a000000000000000''"
  by (simp add: uuid_id_def uuid_hex_def uuid_a_def hex_digit_def upt_conv_Cons ustr_def)

lemma uuid_id_1: "uuid_id (uuid_n 1) = ustr ''activity_0000000000000001''"
  by (simp add: uuid_id_def uuid_hex_def uuid_n_def hex_digit_def upt_conv_Cons ustr_def)

lemma uuid_id_2: "uuid_id (uuid_n 2) = ustr ''activity_0000000000000002''"
  by (simp add: uuid_id_def uuid_hex_def uuid_n_def hex_digit_def upt_conv_Cons ustr_def)

lemma uuid_id_3: "uuid_id (uuid_n 3) = ustr ''activity_0000000000000003''"
  by (simp add: uuid_id_def uuid_hex_def uuid_n_def hex_digit_def upt_conv_Cons ustr_def)

lemma uuid_a_less_b: "uuid_id uuid_a < uuid_id uuid_b"
  by (simp add: uuid_id_a uuid_id_b ustr_def)

lemma skytree_created:
  "resolve skytree_env (io_ok (uuid_n 1) (uuid_n 2)) empty_service skytree
     = (Inr (Created, skytree @ [(ustr ''activityId'', JStr (uuid_id (uuid_n 1)))]), one_record_service)"
  by (simp add: skytree_env_def skytree_def one_record_service_def skytree_record_def eval_defs)

lemma skytree_matched:
  "resolve skytree_env (io_ok (uuid_n 3) (uuid_n 4)) one_record_service skytree
     = (Inr (Matched, matched_result skytree (uuid_id (uuid_n 1))), one_record_service)"
  by (simp add: skytree_env_def skytree_def one_record_service_def skytree_record_def eval_defs)


lemma two_record_service_reached:
  "snd (process_activity tie_env (io_ok uuid_a (uuid_n 8))
         (snd (process_activity tie_env (io_ok uuid_b (uuid_n 8)) empty_service
                 (activity ''Tokyo Tower'' ''TYO'' ''tour'')))
         (activity ''Tokyo Skytree'' ''TYO'' ''tour''))
   = two_record_service"
proof -
  have ne: "uuid_id uuid_a \<noteq> uuid_id uuid_b" "uuid_id uuid_b \<noteq> uuid_id uuid_a"
    using uuid_a_less_b by simp_all
  show ?thesis
    using ne by (simp add: tie_env_def two_record_service_def eval_defs power2_eq_square)
qed


lemma skytree_save_fails:
  "resolve skytree_env (io_save_fails (uuid_n 1) (uuid_n 2)) empty_service skytree
     = (Inl OSError, one_record_service\<lparr>records_file := None\<rparr>)"
  by (simp add: skytree_env_def skytree_def one_record_service_def skytree_record_def eval_defs)

theorem process_activity_persistence_witness:
  "(resolve skytree_env (io_ok (uuid_n 1) (uuid_n 2)) empty_service skytree
      = (Inr (Created, skytree @ [(ustr ''activityId'', JStr (uuid_id (uuid_n 1)))]), one_record_service) \<and>
    write_index_ok (io_ok (uuid_n 1) (uuid_n 2)) \<and> save_ok (io_ok (uuid_n 1) (uuid_n 2)) \<and>
    index_file one_record_service = Some (index one_record_service) \<and>
    records_file one_record_service = Some (activities one_record_service)) \<and>
   (resolve skytree_env (io_ok (uuid_n 3) (uuid_n 4)) one_record_service skytree
      = (Inr (Matched, matched_result skytree (uuid_id (uuid_n 1))), one_record_service) \<and>
    write_index_ok (io_ok (uuid_n 3) (uuid_n 4)) \<and>
    index_file one_record_service = Some (index one_record_service)) \<and>
   (resolve skytree_env (io_save_fails (uuid_n 1) (uuid_n 2)) empty_service skytree
      = (Inl OSError, one_record_service\<lparr>records_file := None\<rparr>) \<and>
    process_activity skytree_env (io_save_fails (uuid_n 1) (uuid_n 2)) empty_service skytree
      = (dict_set (ustr ''activityId'') (JStr (fallback_id (io_save_fails (uuid_n 1) (uuid_n 2)))) skytree,
         one_record_service\<lparr>records_file := None\<rparr>))"
  using process_activity_persistence[of skytree_env "io_ok (uuid_n 1) (uuid_n 2)" empty_service skytree
          "skytree @ [(ustr ''activityId'', JStr (uuid_id (uuid_n 1)))]" one_record_service]
    process_activity_persistence[of skytree_env "io_ok (uuid_n 3) (uuid_n 4)" one_record_service skytree
          "matched_result skytree (uuid_id (uuid_n 1))" one_record_service]
    process_activity_persistence[of skytree_env "io_save_fails (uuid_n 1) (uuid_n 2)" empty_service skytree _
          "one_record_service\<lparr>records_file := None\<rparr>" OSError]
    skytree_created skytree_matched skytree_save_fails
  by blast

text \<open>
  C3 as stated fails when the records file cannot be written: the call returns the
  input annotated with an id, as a successful call does, the new record is in the
  record map and in the index, and the records artifact has not been written.
\<close>

theorem save_failure_is_not_reported:
  "\<not> save_ok (io_save_fails (uuid_n 1) (uuid_n 2)) \<and>
   uuid_id (uuid_n 2) \<noteq> uuid_id (uuid_n 1) \<and>
   process_activity skytree_env (io_save_fails (uuid_n 1) (uuid_n 2)) empty_service skytree
     = (skytree @ [(ustr ''activityId'', JStr (uuid_id (uuid_n 2)))],
        one_record_service\<lparr>records_file := None\<rparr>) \<and>
   map_of (activities (one_record_service\<lparr>records_file := None\<rparr>)) (uuid_id (uuid_n 1))
     = Some skytree_record \<and>
   records_file (one_record_service\<lparr>records_file := None\<rparr>) = None"
proof -
  have "uuid_id (uuid_n 2) \<noteq> uuid_id (uuid_n 1)"
    unfolding uuid_id_1 uuid_id_2 by (simp add: ustr_eq_iff)
  then show ?thesis
    by (simp add: skytree_env_def skytree_def one_record_service_def skytree_record_def eval_defs)
qed

subsection \<open>Rebuilding and loading\<close>

text \<open>
  A rebuild discards the index and \<open>index_to_id\<close> and reinserts every record in the
  iteration order of the record map, so \<open>index_to_id\<close> is the key sequence of the
  record map; it is the sorted list of ids only when the map is in ascending order of
  id.
\<close>

theorem rebuild_index_order:
  assumes "list_all (\<lambda>kv. length (embedding (snd kv)) = embedding_dim) (activities s)"
  shows "index_to_id (snd (rebuild_index c s)) = keys (activities s) \<and>
         vectors (index (snd (rebuild_index c s)))
           = map (\<lambda>kv. embedding (snd kv)) (activities s) \<and>
         metric (index (snd (rebuild_index c s))) = L2 \<and>
         activities (snd (rebuild_index c s)) = activities s \<and>
         (sorted (keys (activities s)) \<longrightarrow>
            index_to_id (snd (rebuild_index c s)) = sort (keys (activities s)))"
proof -
  from rebuild_loop_total[OF assms] obtain idx ids
    where l: "rebuild_loop (activities s) IndexFlatL2 [] = (None, idx, ids)" by blast
  have s': "snd (rebuild_index c s) = (if write_index_ok c
      then s\<lparr>index := idx, index_to_id := ids, index_file := Some idx\<rparr>
      else s\<lparr>index := idx, index_to_id := ids\<rparr>)"
    by (simp add: rebuild_index_def l write_index_def)
  from rebuild_loop_None[OF l] show ?thesis
    by (simp add: s' IndexFlatL2_def sorted_sort_id)
qed

theorem rebuild_index_order_witness:
  "list_all (\<lambda>kv. length (embedding (snd kv)) = embedding_dim) (activities two_record_service) \<and>
   index_to_id (snd (rebuild_index (io_ok (uuid_n 5) (uuid_n 6)) two_record_service))
     = keys (activities two_record_service) \<and>
   vectors (index (snd (rebuild_index (io_ok (uuid_n 5) (uuid_n 6)) two_record_service)))
     = map (\<lambda>kv. embedding (snd kv)) (activities two_record_service) \<and>
   metric (index (snd (rebuild_index (io_ok (uuid_n 5) (uuid_n 6)) two_record_service))) = L2 \<and>
   activities (snd (rebuild_index (io_ok (uuid_n 5) (uuid_n 6)) two_record_service))
     = activities two_record_service"
proof -
  have d: "list_all (\<lambda>kv. length (embedding (snd kv)) = embedding_dim)
      (activities two_record_service)"
    by (simp add: two_record_service_def ActivityRecord_def axis_vec_def embedding_dim_def)
  from rebuild_index_order[OF d] d show ?thesis by blast
qed

lemma restarted_service_eq:
  "restarted_service =
     two_record_service \<lparr> index_to_id := [uuid_id uuid_a, uuid_id uuid_b],
       activities :=
         [ (uuid_id uuid_a, ActivityRecord (uuid_id uuid_a) (ustr ''tokyo skytree'') (ustr ''tyo'')
                              (ustr ''tour'') (axis_vec 0 (4 / 10))),
           (uuid_id uuid_b, ActivityRecord (uuid_id uuid_b) (ustr ''tokyo tower'') (ustr ''tyo'')
                              (ustr ''tour'') (axis_vec (4 / 10) 0)) ] \<rparr>"
proof -
  have lt: "uuid_id uuid_a < uuid_id uuid_b" by (rule uuid_a_less_b)
  then have le: "uuid_id uuid_a \<le> uuid_id uuid_b" "\<not> uuid_id uuid_b \<le> uuid_id uuid_a"
    by auto
  show ?thesis
    using le
    by (simp add: restarted_service_def two_record_service_def new_service_def init_index_def
        load_activities_def ntotal_def)
qed

text \<open>
  C7. A record map holding \<open>activity_b000000000000000\<close> before
  \<open>activity_a000000000000000\<close>, the order in which they were created, is rebuilt in
  that order, not in ascending order of id. The index file keeps that order, while
  \<open>_init_index\<close> sorts \<open>index_to_id\<close> on the next start: the same submission is
  then resolved to \<open>activity_b\<close> before the restart and to \<open>activity_a\<close> after it.
\<close>

theorem rebuild_index_not_sorted:
  "fst (rebuild_index (io_ok (uuid_n 5) (uuid_n 6)) two_record_service) = Inr () \<and>
   index_to_id (snd (rebuild_index (io_ok (uuid_n 5) (uuid_n 6)) two_record_service))
     = [uuid_id uuid_b, uuid_id uuid_a] \<and>
   sort (keys (activities two_record_service)) = [uuid_id uuid_a, uuid_id uuid_b] \<and>
   index_to_id (snd (rebuild_index (io_ok (uuid_n 5) (uuid_n 6)) two_record_service))
     \<noteq> sort (keys (activities two_record_service)) \<and>
   index_to_id restarted_service = [uuid_id uuid_a, uuid_id uuid_b] \<and>
   vectors (index restarted_service) = vectors (index two_record_service) \<and>
   map_of (fst (process_activity tie_env (io_ok (uuid_n 7) (uuid_n 8)) two_record_service
                  (activity ''Tokyo Tower'' ''TYO'' ''tour'')))
     (ustr ''activityId'') = Some (JStr (uuid_id uuid_b)) \<and>
   map_of (fst (process_activity tie_env (io_ok (uuid_n 7) (uuid_n 8)) restarted_service
                  (activity ''Tokyo Tower'' ''TYO'' ''tour'')))
     (ustr ''activityId'') = Some (JStr (uuid_id uuid_a))"
proof -
  have lt: "uuid_id uuid_a < uuid_id uuid_b" by (rule uuid_a_less_b)
  then have le: "uuid_id uuid_a \<le> uuid_id uuid_b" "\<not> uuid_id uuid_b \<le> uuid_id uuid_a"
    and ne: "uuid_id uuid_b \<noteq> uuid_id uuid_a" "uuid_id uuid_a \<noteq> uuid_id uuid_b" by auto
  have 1: "fst (rebuild_index (io_ok (uuid_n 5) (uuid_n 6)) two_record_service) = Inr () \<and>
   index_to_id (snd (rebuild_index (io_ok (uuid_n 5) (uuid_n 6)) two_record_service))
     = [uuid_id uuid_b, uuid_id uuid_a] \<and>
   sort (keys (activities two_record_service)) = [uuid_id uuid_a, uuid_id uuid_b]"
    using le ne by (simp add: two_record_service_def keys_def eval_defs)
  have 2: "index_to_id restarted_service = [uuid_id uuid_a, uuid_id uuid_b] \<and>
   vectors (index restarted_service) = vectors (index two_record_service)"
    by (simp add: restarted_service_eq)
  have 3: "map_of (fst (process_activity tie_env (io_ok (uuid_n 7) (uuid_n 8)) two_record_service
                  (activity ''Tokyo Tower'' ''TYO'' ''tour'')))
     (ustr ''activityId'') = Some (JStr (uuid_id uuid_b))"
    using ne by (simp add: tie_env_def two_record_service_def eval_defs power2_eq_square)
  have 4: "map_of (fst (process_activity tie_env (io_ok (uuid_n 7) (uuid_n 8)) restarted_service
                  (activity ''Tokyo Tower'' ''TYO'' ''tour'')))
     (ustr ''activityId'') = Some (JStr (uuid_id uuid_a))"
    unfolding restarted_service_eq
    using ne by (simp add: tie_env_def two_record_service_def eval_defs power2_eq_square)
  from 1 2 3 4 ne show ?thesis by simp
qed

text \<open>
  After loading, \<open>index_to_id\<close> is the key sequence of the record map and is in
  ascending order of id.
\<close>

theorem new_service_sorted:
  "index_to_id (new_service c idx_file recs_file) = keys (activities (new_service c idx_file recs_file))
   \<and> sorted (index_to_id (new_service c idx_file recs_file))"
proof (cases idx_file)
  case None
  then show ?thesis by (simp add: new_service_def init_index_def keys_def)
next
  case idx: (Some idx)
  show ?thesis
  proof (cases recs_file)
    case None
    then show ?thesis
      by (simp add: new_service_def init_index_def idx load_activities_def keys_def)
  next
    case (Some records)
    let ?s2 = "\<lparr>index = idx, index_to_id = map fst (sort_key fst records),
                 activities = sort_key fst records,
                 index_file = Some idx, records_file = Some records\<rparr>"
    have n: "new_service c idx_file recs_file =
        (if ntotal idx \<noteq> length records then
           (case rebuild_index c ?s2 of
              (Inl e, s3) \<Rightarrow> s3\<lparr>index := IndexFlatL2, activities := [], index_to_id := []\<rparr>
            | (Inr u, s3) \<Rightarrow> s3)
         else ?s2)"
      by (simp add: new_service_def init_index_def idx Some load_activities_def Let_def)
    show ?thesis
    proof (cases "ntotal idx \<noteq> length records")
      case False
      then show ?thesis by (simp add: n keys_def)
    next
      case True
      obtain res s3 where rb: "rebuild_index c ?s2 = (res, s3)"
        by (cases "rebuild_index c ?s2") auto
      show ?thesis
      proof (cases res)
        case (Inl e)
        then show ?thesis using True by (simp add: n rb keys_def)
      next
        case (Inr u)
        from rebuild_index_ok[OF rb[unfolded Inr]] show ?thesis
          using True by (simp add: n rb Inr keys_def)
      qed
    qed
  qed
qed

subsection \<open>Cleanup, the signature and the fields returned\<close>

lemmas cleanup_defs =
  cleanup_old_activities_def cutoff_date_def datetime_end_def IndexFlatIP_def
  example_now_def day_def aged_def sizes_agree_def keys_def

text \<open>
  C2. With records last used 40, 10 and 1 days ago, \<open>cleanup_old_activities\<close> for 30
  days removes the first record and keeps the other two, but the count it returns is
  0, not 1; on records built by the constructor, which have no \<open>last_used\<close>, it
  raises \<open>AttributeError\<close>.
\<close>

theorem cleanup_returns_zero:
  "fst (cleanup_old_activities example_now (io_ok (uuid_n 5) (uuid_n 6)) three_record_service 30)
     = Inr 0 \<and>
   keys (activities (snd (cleanup_old_activities example_now (io_ok (uuid_n 5) (uuid_n 6))
                            three_record_service 30)))
     = [uuid_id (uuid_n 2), uuid_id (uuid_n 3)] \<and>
   length (activities three_record_service) = 3 \<and>
   cleanup_old_activities example_now (io_ok (uuid_n 5) (uuid_n 6)) one_record_service 30
     = (Inl AttributeError, one_record_service)"
  unfolding three_record_service_def one_record_service_def skytree_record_def
    uuid_id_1 uuid_id_2 uuid_id_3
  by (simp add: cleanup_defs eval_defs)

text \<open>
  C1. The same cleanup replaces the index and the record map and leaves
  \<open>index_to_id\<close> as it was: afterwards the index and the record map hold two entries
  and \<open>index_to_id\<close> three.
\<close>

theorem cleanup_breaks_size_invariant:
  "sizes_agree three_record_service \<and>
   ntotal (index (snd (cleanup_old_activities example_now (io_ok (uuid_n 5) (uuid_n 6))
                         three_record_service 30))) = 2 \<and>
   length (activities (snd (cleanup_old_activities example_now (io_ok (uuid_n 5) (uuid_n 6))
                              three_record_service 30))) = 2 \<and>
   length (index_to_id (snd (cleanup_old_activities example_now (io_ok (uuid_n 5) (uuid_n 6))
                               three_record_service 30))) = 3 \<and>
   \<not> sizes_agree (snd (cleanup_old_activities example_now (io_ok (uuid_n 5) (uuid_n 6))
                          three_record_service 30))"
  unfolding three_record_service_def uuid_id_1 uuid_id_2 uuid_id_3
  by (simp add: cleanup_defs eval_defs)

lemma cleanup_count_zero:
  "cleanup_old_activities now c s days_old = (Inr n, s') \<Longrightarrow> n = 0"
  by (auto simp: cleanup_old_activities_def write_index_def save_activities_def Let_def
      split: sum.splits prod.splits if_splits)

text \<open>
  C5. The string given to the encoder is built from the lower-cased fields only: for
  the name \<open>Tokyo  Skytree!\<close> it keeps the double space and the exclamation mark,
  which the normalizer removes, so an encoder that knows the normalized signature
  alone is given a text it does not know.
\<close>

theorem signature_is_not_normalized:
  "activity_signature ucd_fragment (activity ''Tokyo  Skytree!'' ''TYO'' ''tour'')
     = Inr (ustr ''tokyo  skytree!'', ustr ''tyo'', ustr ''tour'',
            ustr ''tokyo  skytree! | tyo | tour'') \<and>
   create_activity_signature ucd_fragment (ustr ''Tokyo  Skytree!'') (ustr ''TYO'') (ustr ''tour'')
     = ustr ''tokyo skytree | tyo | tour'' \<and>
   fst (resolve skytree_env (io_ok (uuid_n 1) (uuid_n 2)) empty_service
          (activity ''Tokyo  Skytree!'' ''TYO'' ''tour'')) = Inl EncoderError"
  by (simp add: skytree_env_def eval_defs create_activity_signature_def normalize_text_def
      kept_char_def is_word_def ascii_alnum_def py_isspace_def py_split_def py_strip_def)

lemma resolve_encoder_input:
  assumes "activity_signature (unicode E) d = Inr (nm, loc, cat, sg)" and "f sg = encode E sg"
  shows "resolve (E\<lparr>encode := f\<rparr>) c s d = resolve E c s d"
  using assms
  by (simp add: resolve_def search_similar_activities_def
      split: sum.splits option.splits prod.splits)

text \<open>
  C8. The same input, with a field \<open>bookingRef\<close> the service does not know, is
  resolved twice: the first call creates a record and returns every field of the
  input, the second matches that record and returns the eight fixed keys, without
  \<open>bookingRef\<close>.
\<close>

theorem match_path_drops_extra_fields:
  "process_activity skytree_env (io_ok (uuid_n 1) (uuid_n 2)) empty_service skytree_with_extra
     = (skytree_with_extra @ [(ustr ''activityId'', JStr (uuid_id (uuid_n 1)))],
        one_record_service) \<and>
   process_activity skytree_env (io_ok (uuid_n 3) (uuid_n 4)) one_record_service skytree_with_extra
     = (matched_result skytree_with_extra (uuid_id (uuid_n 1)), one_record_service) \<and>
   map_of skytree_with_extra (ustr ''bookingRef'') = Some (JStr (ustr ''X1'')) \<and>
   map_of (matched_result skytree_with_extra (uuid_id (uuid_n 1))) (ustr ''bookingRef'') = None"
  by (simp add: skytree_with_extra_def skytree_env_def skytree_def one_record_service_def
      skytree_record_def eval_defs)

lemma create_and_fallback_keep_fields:
  assumes "\<And>out s'. resolve E c s d \<noteq> (Inr (Matched, out), s')" and "k \<noteq> ustr ''activityId''"
  shows "map_of (fst (process_activity E c s d)) k = map_of d k"
proof -
  obtain res s' where r: "resolve E c s d = (res, s')" by (cases "resolve E c s d") auto
  show ?thesis
  proof (cases res)
    case (Inl e)
    then show ?thesis using assms(2) by (simp add: process_activity_def r map_of_dict_set)
  next
    case (Inr q)
    obtain p out where q: "q = (p, out)" by (cases q)
    from assms(1) r Inr q have "p = Created" by (cases p) auto
    from r[unfolded Inr q this] have "out = dict_set (ustr ''activityId'') (JStr (uuid_id (uuid_new c))) d"
    proof (cases rule: resolve_cases[of E d c s])
      case (matched nm loc cat sg emb found sid sim rec)
      with match_path_ok[of c s d sid nm loc cat emb Created out s'] r Inr q \<open>p = Created\<close>
      show ?thesis by simp
    next
      case (created nm loc cat sg emb found)
      with create_path_ok[of c s d nm loc cat emb Created out s'] r Inr q \<open>p = Created\<close>
      show ?thesis by simp
    qed (use r Inr in auto)
    then show ?thesis using assms(2) by (simp add: process_activity_def r Inr q map_of_dict_set)
  qed
qed

subsection \<open>Trip plans\<close>

















subsection \<open>The identifier returned: examples\<close>

lemma new_service_without_files: "new_service c None None = empty_service"
  by (simp add: new_service_def init_index_def load_activities_def empty_service_def)

lemma empty_service_wellformed: "ids_wellformed empty_service"
  by (simp add: ids_wellformed_def empty_service_def keys_def)

lemma one_record_service_wellformed: "ids_wellformed one_record_service"
  by (simp add: ids_wellformed_def one_record_service_def keys_def uuid_id_wellformed)

theorem process_activity_id_format_witness:
  "ids_wellformed (new_service (io_ok (uuid_n 5) (uuid_n 6)) None None) \<and>
   ids_wellformed one_record_service \<and>
   resolve skytree_env (io_ok (uuid_n 3) (uuid_n 4)) one_record_service skytree
     = (Inr (Matched, matched_result skytree (uuid_id (uuid_n 1))), one_record_service) \<and>
   (\<exists>aid. map_of (fst (process_activity skytree_env (io_ok (uuid_n 3) (uuid_n 4))
                        one_record_service skytree))
             (ustr ''activityId'') = Some (JStr aid) \<and> is_activity_id aid) \<and>
   ids_wellformed (snd (process_activity skytree_env (io_ok (uuid_n 3) (uuid_n 4))
                          one_record_service skytree))"
  using process_activity_id_format[of skytree_env "io_ok (uuid_n 3) (uuid_n 4)"
      one_record_service skytree]
    one_record_service_wellformed skytree_matched empty_service_wellformed
    new_service_without_files[of "io_ok (uuid_n 5) (uuid_n 6)"]
  by simp

lemma legacy_service_eq:
  "legacy_service =
     \<lparr> index = \<lparr> metric = L2, vectors = [axis_vec 1 0] \<rparr>,
       index_to_id = [ustr ''legacy''],
       activities = [(ustr ''legacy'', legacy_record)],
       index_file = Some \<lparr> metric = L2, vectors = [axis_vec 1 0] \<rparr>,
       records_file = Some [(ustr ''legacy'', legacy_record)] \<rparr>"
  by (simp add: legacy_service_def new_service_def init_index_def load_activities_def ntotal_def)

text \<open>
  C9 as stated fails on a service loaded from a records file whose key is not of the
  form: the submission matches that record and its id, \<open>legacy\<close>, is returned.
\<close>

theorem stored_id_of_another_form_is_returned:
  "map_of (fst (process_activity skytree_env (io_ok (uuid_n 3) (uuid_n 4)) legacy_service skytree))
     (ustr ''activityId'') = Some (JStr (ustr ''legacy'')) \<and>
   \<not> is_activity_id (ustr ''legacy'')"
  unfolding legacy_service_eq
  by (simp add: skytree_env_def skytree_def legacy_record_def is_activity_id_def eval_defs)

end
